theory Spec2Isabelle
  imports Complex_Main "HOL-Library.Char_ord" "HOL-Library.List_Lexorder"
    "HOL-Library.Multiset" "HOL-Library.AList"
begin

section \<open>LaundryTracker: the ledger, its aggregation, deletion, export and the edit workflow\<close>

text \<open>
  A shallow embedding of \<^verbatim>\<open>src/App.tsx\<close> (the ledger, the grouping of the saved batches,
  batch deletion, the CSV export, loading from local storage), of the \<^verbatim>\<open>ResultsView\<close>
  component (\<^verbatim>\<open>src/unnamed/part_000\<close>: the edit and recompute workflow) and of
  \<^verbatim>\<open>src/types.ts\<close>.

  React state is explicit state passing: a component's \<^verbatim>\<open>useState\<close> cells are the fields
  of a record and every handler is a function from state to state. What the JavaScript
  runtime decides (the local calendar, the locale's date formats, the text of a number)
  is a parameter of the model, the record \<open>js_runtime\<close>; \<^verbatim>\<open>calculatePrice\<close>, which lives
  in a module that is not among the sources, is a parameter as well.
\<close>

subsection \<open>JavaScript numbers and strings\<close>

text \<open>
  A JavaScript number is a double. The model keeps the three special values and takes a
  finite double as the rational it denotes: rounding, overflow and the sign of zero are
  outside the model.
\<close>

datatype jsnum = Fin rat | PInf | NInf | NaN

fun js_add :: "jsnum \<Rightarrow> jsnum \<Rightarrow> jsnum" where
  "js_add NaN y = NaN"
| "js_add x NaN = NaN"
| "js_add PInf NInf = NaN"
| "js_add NInf PInf = NaN"
| "js_add PInf y = PInf"
| "js_add x PInf = PInf"
| "js_add NInf y = NInf"
| "js_add x NInf = NInf"
| "js_add (Fin a) (Fin b) = Fin (a + b)"

definition js_neg :: "jsnum \<Rightarrow> jsnum" where
  "js_neg x = (case x of Fin q \<Rightarrow> Fin (- q) | PInf \<Rightarrow> NInf | NInf \<Rightarrow> PInf | NaN \<Rightarrow> NaN)"

definition isNaN :: "jsnum \<Rightarrow> bool" where
  "isNaN x = (x = NaN)"

text \<open>\<^verbatim>\<open>x || 0\<close> on a number: zero and NaN are falsy.\<close>

definition or_zero :: "jsnum \<Rightarrow> jsnum" where
  "or_zero x = (if x = NaN \<or> x = Fin 0 then Fin 0 else x)"

text \<open>
  Strings are lists of code units; the model covers the code units below 256
  (\<^typ>\<open>char\<close>), with the white space and the letter cases JavaScript gives them there.
\<close>

definition dquote :: char where
  "dquote = CHR 0x22"

definition newline :: char where
  "newline = CHR 0x0A"

definition is_white_space :: "char \<Rightarrow> bool" where
  "is_white_space c = (c \<in> set [CHR 0x09, CHR 0x0A, CHR 0x0B, CHR 0x0C, CHR 0x0D, CHR 0x20, CHR 0xA0])"

definition trimStart :: "string \<Rightarrow> string" where
  "trimStart s = dropWhile is_white_space s"

definition trimEnd :: "string \<Rightarrow> string" where
  "trimEnd s = rev (dropWhile is_white_space (rev s))"

definition trim :: "string \<Rightarrow> string" where
  "trim s = trimEnd (trimStart s)"

definition lower_char :: "char \<Rightarrow> char" where
  "lower_char c =
     (let n = (of_char c :: nat)
      in if (65 \<le> n \<and> n \<le> 90) \<or> (192 \<le> n \<and> n \<le> 222 \<and> n \<noteq> 215)
         then char_of (n + 32) else c)"

definition toLowerCase :: "string \<Rightarrow> string" where
  "toLowerCase s = map lower_char s"

text \<open>\<^verbatim>\<open>Array.prototype.join\<close> on an array of strings.\<close>

fun join :: "string \<Rightarrow> string list \<Rightarrow> string" where
  "join sep [] = []"
| "join sep [x] = x"
| "join sep (x # y # ys) = x @ sep @ join sep (y # ys)"

definition padStart :: "nat \<Rightarrow> char \<Rightarrow> string \<Rightarrow> string" where
  "padStart n c s = replicate (n - length s) c @ s"

definition is_digit :: "char \<Rightarrow> bool" where
  "is_digit c = (CHR ''0'' \<le> c \<and> c \<le> CHR ''9'')"

definition digit_val :: "char \<Rightarrow> nat" where
  "digit_val c = of_char c - 48"

definition digit_char :: "nat \<Rightarrow> char" where
  "digit_char n = char_of (48 + n)"

definition nat_of_digits :: "string \<Rightarrow> nat" where
  "nat_of_digits ds = foldl (\<lambda>a c. 10 * a + digit_val c) 0 ds"

text \<open>\<^verbatim>\<open>String(n)\<close> for an integer \<open>n\<close> (below \<open>10^21\<close> in size, where the text is the plain decimal).\<close>

fun string_of_nat :: "nat \<Rightarrow> string" where
  "string_of_nat n =
     (if n < 10 then [digit_char n] else string_of_nat (n div 10) @ [digit_char (n mod 10)])"

declare string_of_nat.simps [simp del]

definition string_of_int :: "int \<Rightarrow> string" where
  "string_of_int i = (if i < 0 then CHR ''-'' # string_of_nat (nat (- i)) else string_of_nat (nat i))"

subsection \<open>\<^verbatim>\<open>parseFloat\<close> and \<^verbatim>\<open>Number\<close> on strings\<close>

text \<open>
  \<^verbatim>\<open>parseFloat\<close> skips leading white space and reads the longest prefix that is a
  \<^verbatim>\<open>StrDecimalLiteral\<close>: an optional sign, then \<^verbatim>\<open>Infinity\<close> or decimal digits with an
  optional fraction and an optional exponent. \<^verbatim>\<open>Number\<close> trims both ends and wants the whole
  string to be a literal (the empty string is 0; the prefixes \<^verbatim>\<open>0x\<close>, \<^verbatim>\<open>0o\<close>, \<^verbatim>\<open>0b\<close>
  are read).
\<close>

definition pow10 :: "int \<Rightarrow> rat" where
  "pow10 e = (if 0 \<le> e then 10 ^ nat e else 1 / 10 ^ nat (- e))"

definition parse_exponent :: "string \<Rightarrow> int \<times> string" where
  "parse_exponent s =
     (case s of
        [] \<Rightarrow> (0, s)
      | c # r \<Rightarrow>
          if c = CHR ''e'' \<or> c = CHR ''E'' then
            (case r of
               [] \<Rightarrow> (0, s)
             | d # r' \<Rightarrow>
                 if d = CHR ''+'' \<and> takeWhile is_digit r' \<noteq> [] then
                   (int (nat_of_digits (takeWhile is_digit r')), dropWhile is_digit r')
                 else if d = CHR ''-'' \<and> takeWhile is_digit r' \<noteq> [] then
                   (- int (nat_of_digits (takeWhile is_digit r')), dropWhile is_digit r')
                 else if takeWhile is_digit r \<noteq> [] then
                   (int (nat_of_digits (takeWhile is_digit r)), dropWhile is_digit r)
                 else (0, s))
          else (0, s))"

definition decimal_of :: "string \<Rightarrow> string \<Rightarrow> int \<Rightarrow> jsnum" where
  "decimal_of ip fp e =
     Fin (of_nat (nat_of_digits (ip @ fp)) / 10 ^ length fp * pow10 e)"

definition parse_unsigned :: "string \<Rightarrow> (jsnum \<times> string) option" where
  "parse_unsigned s =
     (if take 8 s = ''Infinity'' then Some (PInf, drop 8 s)
      else
        let ip = takeWhile is_digit s; r1 = dropWhile is_digit s
        in case r1 of
             [] \<Rightarrow> if ip = [] then None else Some (decimal_of ip [] 0, [])
           | c # r2 \<Rightarrow>
               if c = CHR ''.'' then
                 (let fp = takeWhile is_digit r2; r3 = dropWhile is_digit r2
                  in if ip = [] \<and> fp = [] then None
                     else Some (decimal_of ip fp (fst (parse_exponent r3)), snd (parse_exponent r3)))
               else if ip = [] then None
               else Some (decimal_of ip [] (fst (parse_exponent r1)), snd (parse_exponent r1)))"

definition parse_decimal :: "string \<Rightarrow> (jsnum \<times> string) option" where
  "parse_decimal s =
     (case s of
        [] \<Rightarrow> None
      | c # r \<Rightarrow>
          if c = CHR ''+'' then parse_unsigned r
          else if c = CHR ''-'' then map_option (\<lambda>(v, rest). (js_neg v, rest)) (parse_unsigned r)
          else parse_unsigned s)"

definition parseFloat :: "string \<Rightarrow> jsnum" where
  "parseFloat s = (case parse_decimal (trimStart s) of None \<Rightarrow> NaN | Some (v, rest) \<Rightarrow> v)"

definition radix_digit :: "char \<Rightarrow> nat option" where
  "radix_digit c =
     (if is_digit c then Some (digit_val c)
      else if CHR ''a'' \<le> c \<and> c \<le> CHR ''f'' then Some (of_char c - 87)
      else if CHR ''A'' \<le> c \<and> c \<le> CHR ''F'' then Some (of_char c - 55)
      else None)"

definition parse_radix :: "nat \<Rightarrow> string \<Rightarrow> jsnum" where
  "parse_radix b ds =
     (if ds \<noteq> [] \<and> list_all (\<lambda>c. case radix_digit c of None \<Rightarrow> False | Some d \<Rightarrow> d < b) ds
      then Fin (of_nat (foldl (\<lambda>a c. b * a + (case radix_digit c of None \<Rightarrow> 0 | Some d \<Rightarrow> d)) 0 ds))
      else NaN)"

definition string_to_number :: "string \<Rightarrow> jsnum" where
  "string_to_number s =
     (let t = trim s
      in if t = [] then Fin 0
         else if take 2 t = ''0x'' \<or> take 2 t = ''0X'' then parse_radix 16 (drop 2 t)
         else if take 2 t = ''0o'' \<or> take 2 t = ''0O'' then parse_radix 8 (drop 2 t)
         else if take 2 t = ''0b'' \<or> take 2 t = ''0B'' then parse_radix 2 (drop 2 t)
         else (case parse_decimal t of
                 None \<Rightarrow> NaN
               | Some (v, rest) \<Rightarrow> if rest = [] then v else NaN))"

subsection \<open>The runtime\<close>

text \<open>
  What the code asks of \<^verbatim>\<open>Date\<close>, of the locale and of \<^verbatim>\<open>Number.prototype.toString\<close>.
  \<open>getMonth\<close> counts from 0, as in JavaScript; \<open>toLocaleMonthYear\<close> is
  \<^verbatim>\<open>toLocaleString('default', { month: 'long', year: 'numeric' })\<close>.
\<close>

record js_runtime =
  getFullYear :: "int \<Rightarrow> int"
  getMonth :: "int \<Rightarrow> nat"
  toLocaleMonthYear :: "int \<Rightarrow> string"
  toLocaleDateString :: "int \<Rightarrow> string"
  toLocaleTimeString :: "int \<Rightarrow> string"
  numberToString :: "jsnum \<Rightarrow> string"

text \<open>
  \<^verbatim>\<open>Number.prototype.toFixed(2)\<close>: a value that is not finite prints by name, one of size
  \<open>10^21\<close> or more prints as \<^verbatim>\<open>toString\<close> does, any other is rounded to the hundredth (a
  tie goes up in size) and printed with two digits after the point.
\<close>

definition toFixed2 :: "js_runtime \<Rightarrow> jsnum \<Rightarrow> string" where
  "toFixed2 rt x =
     (case x of
        NaN \<Rightarrow> ''NaN''
      | PInf \<Rightarrow> ''Infinity''
      | NInf \<Rightarrow> ''-Infinity''
      | Fin q \<Rightarrow>
          (if q < 0 then ''-'' else []) @
          (if 10 ^ 21 \<le> \<bar>q\<bar> then numberToString rt (Fin \<bar>q\<bar>)
           else
             let m = padStart 3 (CHR ''0'') (string_of_nat (nat \<lfloor>\<bar>q\<bar> * 100 + 1 / 2\<rfloor>))
             in take (length m - 2) m @ ''.'' @ drop (length m - 2) m))"

subsection \<open>The record model (\<^verbatim>\<open>types.ts\<close>)\<close>

text \<open>
  \<^verbatim>\<open>laundry_weight_kg: number | string\<close> is a number or a string (the extraction's
  \<^verbatim>\<open>"DATA_UNCLEAR"\<close>). \<^verbatim>\<open>price\<close> is declared a number, but the code guards every read with
  \<^verbatim>\<open>|| 0\<close> or \<^verbatim>\<open>?.\<close>, since a stored record may lack it: it is optional here. The
  timestamp is an integer count of milliseconds.
\<close>

datatype weight = WNum jsnum | WStr string

record LaundryOrderResult =
  laundry_service_name :: string
  shopify_order_number :: string
  customer_name :: string
  delivery_address :: string
  laundry_weight_kg :: weight
  price :: "jsnum option"
  extraction_confidence_score :: jsnum
  timestamp :: int
  weight_image_src :: "string option"
  customer_image_src :: "string option"

datatype Step = INPUT | PROCESSING | RESULT

datatype js_error = TypeError | SyntaxError | SecurityError

definition DATA_UNCLEAR :: string where
  "DATA_UNCLEAR = ''DATA_UNCLEAR''"

text \<open>\<^verbatim>\<open>Number(record.laundry_weight_kg)\<close> and \<^verbatim>\<open>record.price || 0\<close>.\<close>

definition Number_of :: "weight \<Rightarrow> jsnum" where
  "Number_of w = (case w of WNum n \<Rightarrow> n | WStr s \<Rightarrow> string_to_number s)"

definition price_or_zero :: "jsnum option \<Rightarrow> jsnum" where
  "price_or_zero p = (case p of None \<Rightarrow> Fin 0 | Some n \<Rightarrow> or_zero n)"

subsection \<open>The ledger and the selection (\<^verbatim>\<open>App\<close>)\<close>

text \<open>
  The \<^verbatim>\<open>useState\<close> cells of \<^verbatim>\<open>App\<close>. A chosen photo is a \<^verbatim>\<open>File\<close>, kept here by its
  name; the selection is a \<^verbatim>\<open>Set<number>\<close> of timestamps.
\<close>

record app_state =
  step :: Step
  serviceName :: string
  weightPhoto :: "string option"
  customerPhoto :: "string option"
  error :: "string option"
  result :: "LaundryOrderResult option"
  history :: "LaundryOrderResult list"
  selectedOrder :: "LaundryOrderResult option"
  isSelectionMode :: bool
  selectedTimestamps :: "int set"

definition handleSaveAndReset :: "LaundryOrderResult \<Rightarrow> app_state \<Rightarrow> app_state" where
  "handleSaveAndReset finalData st =
     st\<lparr>history := finalData # history st,
        serviceName := [],
        weightPhoto := None,
        customerPhoto := None,
        result := None,
        error := None,
        step := INPUT\<rparr>"

definition handleDiscard :: "app_state \<Rightarrow> app_state" where
  "handleDiscard st = st\<lparr>result := None, step := INPUT\<rparr>"

definition toggleSelectionMode :: "app_state \<Rightarrow> app_state" where
  "toggleSelectionMode st =
     st\<lparr>isSelectionMode := \<not> isSelectionMode st, selectedTimestamps := {}\<rparr>"

definition toggleSelection :: "int \<Rightarrow> app_state \<Rightarrow> app_state" where
  "toggleSelection t st =
     (if t \<in> selectedTimestamps st
      then st\<lparr>selectedTimestamps := selectedTimestamps st - {t}\<rparr>
      else st\<lparr>selectedTimestamps := insert t (selectedTimestamps st)\<rparr>)"

text \<open>
  \<^verbatim>\<open>deleteSelected\<close>: the first argument is the answer of \<^verbatim>\<open>window.confirm\<close>, which is
  asked only when the selection is not empty.
\<close>

definition deleteSelected :: "bool \<Rightarrow> app_state \<Rightarrow> app_state" where
  "deleteSelected confirmed st =
     (if selectedTimestamps st = {} then st
      else if confirmed then
        st\<lparr>history := filter (\<lambda>item. \<not> (timestamp item \<in> selectedTimestamps st)) (history st),
           isSelectionMode := False,
           selectedTimestamps := {}\<rparr>
      else st)"

subsection \<open>Loading the ledger\<close>



subsection \<open>The CSV export\<close>

definition replace_dquotes :: "string \<Rightarrow> string" where
  "replace_dquotes s = concat (map (\<lambda>c. if c = dquote then [dquote, dquote] else [c]) s)"

definition replace_newlines :: "string \<Rightarrow> string" where
  "replace_newlines s = map (\<lambda>c. if c = newline then CHR '' '' else c) s"

text \<open>\<^verbatim>\<open>s || ''\<close> on a string: the empty string is the only falsy one.\<close>

definition or_empty :: "string \<Rightarrow> string" where
  "or_empty s = (if s = [] then [] else s)"

definition quote_field :: "string \<Rightarrow> string" where
  "quote_field s = [dquote] @ replace_dquotes (or_empty s) @ [dquote]"

definition quote_address :: "string \<Rightarrow> string" where
  "quote_address s = [dquote] @ replace_newlines (replace_dquotes (or_empty s)) @ [dquote]"

text \<open>What \<^verbatim>\<open>join\<close> makes of the weight: a string as it is, a number by \<^verbatim>\<open>toString\<close>.\<close>

definition weight_text :: "js_runtime \<Rightarrow> weight \<Rightarrow> string" where
  "weight_text rt w = (case w of WNum n \<Rightarrow> numberToString rt n | WStr s \<Rightarrow> s)"

definition headers :: "string list" where
  "headers = [''Date'', ''Time'', ''Laundry Service'', ''Order Number'', ''Customer Name'',
     ''Delivery Address'', ''Weight (kg)'', ''Price (EUR)'']"

definition csv_cells :: "js_runtime \<Rightarrow> LaundryOrderResult \<Rightarrow> string list" where
  "csv_cells rt row =
     [toLocaleDateString rt (timestamp row),
      toLocaleTimeString rt (timestamp row),
      quote_field (laundry_service_name row),
      quote_field (shopify_order_number row),
      quote_field (customer_name row),
      quote_address (delivery_address row),
      weight_text rt (laundry_weight_kg row),
      toFixed2 rt (price_or_zero (price row))]"

definition csvRows :: "js_runtime \<Rightarrow> LaundryOrderResult list \<Rightarrow> string list" where
  "csvRows rt hist =
     foldl (\<lambda>rows row. rows @ [join '','' (csv_cells rt row)]) [join '','' headers] hist"

text \<open>
  The download: its name (from the ISO date of the day, an argument), its MIME type and
  its content. An empty ledger gives no download.
\<close>

record download =
  file_name :: string
  mime_type :: string
  content :: string

definition exportToCSV :: "js_runtime \<Rightarrow> string \<Rightarrow> LaundryOrderResult list \<Rightarrow> download option" where
  "exportToCSV rt today hist =
     (if length hist = 0 then None
      else Some \<lparr>file_name = ''laundry-tracker-export-'' @ today @ ''.csv'',
                 mime_type = ''text/csv'',
                 content = join [newline] (csvRows rt hist)\<rparr>)"

text \<open>
  Standard CSV unquoting of one quoted field (RFC 4180): the field opens with a double
  quote, a doubled double quote inside stands for one, and a single one closes the field,
  which must end there.
\<close>

fun unquote_body :: "string \<Rightarrow> string option" where
  "unquote_body [] = None"
| "unquote_body [c] = (if c = dquote then Some [] else None)"
| "unquote_body (c # d # r) =
     (if c = dquote then (if d = dquote then map_option ((#) dquote) (unquote_body r) else None)
      else map_option ((#) c) (unquote_body (d # r)))"

definition csv_unquote :: "string \<Rightarrow> string option" where
  "csv_unquote s = (case s of [] \<Rightarrow> None | c # r \<Rightarrow> if c = dquote then unquote_body r else None)"

subsection \<open>Objects used as dictionaries\<close>

text \<open>
  \<^verbatim>\<open>groupedHistory\<close> and each month's \<^verbatim>\<open>services\<close> are plain objects (\<^verbatim>\<open>{}\<close>) indexed by
  computed strings. An object's own properties are an association list in insertion order.
  Reading \<^verbatim>\<open>obj[k]\<close> finds an own property, or else what \<^verbatim>\<open>Object.prototype\<close> gives
  every plain object under that name (a function, or for \<^verbatim>\<open>__proto__\<close> the prototype
  itself: truthy, and without the fields the code reads next), or else \<^verbatim>\<open>undefined\<close>.
\<close>

definition object_prototype_names :: "string list" where
  "object_prototype_names =
     [''constructor'', ''__defineGetter__'', ''__defineSetter__'', ''hasOwnProperty'',
      ''__lookupGetter__'', ''__lookupSetter__'', ''isPrototypeOf'', ''propertyIsEnumerable'',
      ''toString'', ''valueOf'', ''__proto__'', ''toLocaleString'']"

datatype 'a property = Own 'a | Inherited | Undefined

definition get_property :: "(string \<times> 'a) list \<Rightarrow> string \<Rightarrow> 'a property" where
  "get_property obj k =
     (case map_of obj k of
        Some v \<Rightarrow> Own v
      | None \<Rightarrow> if k \<in> set object_prototype_names then Inherited else Undefined)"

text \<open>
  \<^verbatim>\<open>Object.keys\<close> and \<^verbatim>\<open>Object.values\<close> list the own properties: the keys that are
  array indices (canonical decimals below \<open>2^32 - 1\<close>) first, in ascending order, then the
  others in insertion order.
\<close>

definition array_index :: "string \<Rightarrow> nat option" where
  "array_index k =
     (if k \<noteq> [] \<and> list_all is_digit k \<and> (k = ''0'' \<or> take 1 k \<noteq> ''0'')
         \<and> nat_of_digits k < 4294967295
      then Some (nat_of_digits k) else None)"

definition own_entries :: "(string \<times> 'a) list \<Rightarrow> (string \<times> 'a) list" where
  "own_entries obj =
     sort_key (\<lambda>e. case array_index (fst e) of None \<Rightarrow> 0 | Some n \<Rightarrow> n)
       (filter (\<lambda>e. array_index (fst e) \<noteq> None) obj)
     @ filter (\<lambda>e. array_index (fst e) = None) obj"

definition object_keys :: "(string \<times> 'a) list \<Rightarrow> string list" where
  "object_keys obj = map fst (own_entries obj)"

definition object_values :: "(string \<times> 'a) list \<Rightarrow> 'a list" where
  "object_values obj = map snd (own_entries obj)"

subsection \<open>The aggregation (\<^verbatim>\<open>groupedHistory\<close>, \<^verbatim>\<open>sortedMonthKeys\<close> and the rendered totals)\<close>

record service_entry =
  displayName :: string
  records :: "LaundryOrderResult list"

record month_entry =
  label :: string
  services :: "(string \<times> service_entry) list"

type_synonym grouped = "(string \<times> month_entry) list"

definition sortKey :: "js_runtime \<Rightarrow> LaundryOrderResult \<Rightarrow> string" where
  "sortKey rt cur =
     string_of_int (getFullYear rt (timestamp cur)) @ ''-'' @
     padStart 2 (CHR ''0'') (string_of_nat (getMonth rt (timestamp cur) + 1))"

definition normalizedServiceKey :: "LaundryOrderResult \<Rightarrow> string" where
  "normalizedServiceKey cur = toLowerCase (trim (laundry_service_name cur))"

text \<open>
  One call of the reducer. Reading a field of \<^verbatim>\<open>undefined\<close> throws a \<^verbatim>\<open>TypeError\<close>: that
  is what happens when the property found under the key is an inherited one, which has
  neither \<^verbatim>\<open>services\<close> nor \<^verbatim>\<open>records\<close>.
\<close>

definition group_step :: "js_runtime \<Rightarrow> grouped \<Rightarrow> LaundryOrderResult \<Rightarrow> js_error + grouped" where
  "group_step rt acc cur =
     (let monthLabel = toLocaleMonthYear rt (timestamp cur);
          sk = sortKey rt cur;
          acc1 = (case get_property acc sk of
                    Undefined \<Rightarrow> AList.update sk \<lparr>label = monthLabel, services = []\<rparr> acc
                  | _ \<Rightarrow> acc);
          rawName = trim (laundry_service_name cur);
          nk = toLowerCase rawName
      in case get_property acc1 sk of
           Own m \<Rightarrow>
             (let services1 =
                    (case get_property (services m) nk of
                       Undefined \<Rightarrow> AList.update nk \<lparr>displayName = rawName, records = []\<rparr> (services m)
                     | _ \<Rightarrow> services m)
              in case get_property services1 nk of
                   Own g \<Rightarrow>
                     Inr (AList.update sk
                            (m\<lparr>services := AList.update nk (g\<lparr>records := records g @ [cur]\<rparr>) services1\<rparr>)
                            acc1)
                 | _ \<Rightarrow> Inl TypeError)
         | _ \<Rightarrow> Inl TypeError)"

definition groupedHistory :: "js_runtime \<Rightarrow> LaundryOrderResult list \<Rightarrow> js_error + grouped" where
  "groupedHistory rt hist =
     foldl (\<lambda>acc cur. case acc of Inl e \<Rightarrow> Inl e | Inr a \<Rightarrow> group_step rt a cur) (Inr []) hist"

definition sortedMonthKeys :: "grouped \<Rightarrow> string list" where
  "sortedMonthKeys g = rev (sort (object_keys g))"

text \<open>The two reducers of the rendering, over the records of one service group.\<close>

definition totalWeight :: "LaundryOrderResult list \<Rightarrow> jsnum" where
  "totalWeight recs =
     foldl (\<lambda>sum r. js_add sum (or_zero (Number_of (laundry_weight_kg r)))) (Fin 0) recs"

definition totalPrice :: "LaundryOrderResult list \<Rightarrow> jsnum" where
  "totalPrice recs = foldl (\<lambda>sum r. js_add sum (price_or_zero (price r))) (Fin 0) recs"

text \<open>
  What the page shows under "Saved Batches": per month key, in the order of
  \<^verbatim>\<open>sortedMonthKeys\<close>, the label and one card per service group with its two totals.
\<close>

record service_group =
  display_name :: string
  group_records :: "LaundryOrderResult list"
  total_weight :: jsnum
  total_price :: jsnum

record month_group =
  sort_key_of :: string
  display_label :: string
  service_groups :: "service_group list"

definition render_service :: "service_entry \<Rightarrow> service_group" where
  "render_service e =
     \<lparr>display_name = displayName e, group_records = records e,
      total_weight = totalWeight (records e), total_price = totalPrice (records e)\<rparr>"

definition render_month :: "grouped \<Rightarrow> string \<Rightarrow> js_error + month_group" where
  "render_month g monthKey =
     (case get_property g monthKey of
        Own m \<Rightarrow>
          Inr \<lparr>sort_key_of = monthKey, display_label = label m,
               service_groups = map render_service (object_values (services m))\<rparr>
      | _ \<Rightarrow> Inl TypeError)"

fun map_result :: "('a \<Rightarrow> 'e + 'b) \<Rightarrow> 'a list \<Rightarrow> 'e + 'b list" where
  "map_result f [] = Inr []"
| "map_result f (x # xs) =
     (case f x of
        Inl e \<Rightarrow> Inl e
      | Inr y \<Rightarrow> (case map_result f xs of Inl e \<Rightarrow> Inl e | Inr ys \<Rightarrow> Inr (y # ys)))"

definition savedBatches :: "js_runtime \<Rightarrow> LaundryOrderResult list \<Rightarrow> js_error + month_group list" where
  "savedBatches rt hist =
     (case groupedHistory rt hist of
        Inl e \<Rightarrow> Inl e
      | Inr g \<Rightarrow> map_result (render_month g) (sortedMonthKeys g))"

definition all_records :: "month_group list \<Rightarrow> LaundryOrderResult list" where
  "all_records v = concat (map group_records (concat (map service_groups v)))"

subsection \<open>The edit and recompute workflow (\<^verbatim>\<open>ResultsView\<close>)\<close>

text \<open>
  The component's \<^verbatim>\<open>useState\<close> cells. The draft \<^verbatim>\<open>data\<close> is a prop: it initialises the
  cells when the component mounts and is read again only by \<^verbatim>\<open>handleSave\<close>.
\<close>

record results_view =
  isEditingWeight :: bool
  editedWeight :: string
  currentPrice :: jsnum
  isEditingName :: bool
  editedName :: string
  isEditingAddress :: bool
  editedAddress :: string

definition initial_view :: "js_runtime \<Rightarrow> LaundryOrderResult \<Rightarrow> results_view" where
  "initial_view rt data =
     \<lparr>isEditingWeight = False,
      editedWeight = weight_text rt (laundry_weight_kg data),
      currentPrice = price_or_zero (price data),
      isEditingName = False,
      editedName = customer_name data,
      isEditingAddress = False,
      editedAddress = delivery_address data\<rparr>"

text \<open>The body of the effect that depends on \<^verbatim>\<open>editedWeight\<close>.\<close>

definition price_effect :: "(jsnum \<Rightarrow> jsnum) \<Rightarrow> results_view \<Rightarrow> results_view" where
  "price_effect calculatePrice v =
     (let w = parseFloat (editedWeight v)
      in if \<not> isNaN w then v\<lparr>currentPrice := calculatePrice w\<rparr>
         else v\<lparr>currentPrice := Fin 0\<rparr>)"

text \<open>Mounting runs every effect once, after the first render.\<close>

definition mount :: "js_runtime \<Rightarrow> (jsnum \<Rightarrow> jsnum) \<Rightarrow> LaundryOrderResult \<Rightarrow> results_view" where
  "mount rt calculatePrice data = price_effect calculatePrice (initial_view rt data)"

text \<open>
  The setters the operator's actions call. After a render React runs the effect again
  only if \<^verbatim>\<open>editedWeight\<close> is not the string it was.
\<close>

datatype ui_event =
    SetIsEditingWeight bool
  | SetEditedWeight string
  | SetIsEditingName bool
  | SetEditedName string
  | SetIsEditingAddress bool
  | SetEditedAddress string

fun dispatch :: "(jsnum \<Rightarrow> jsnum) \<Rightarrow> results_view \<Rightarrow> ui_event \<Rightarrow> results_view" where
  "dispatch cp v (SetIsEditingWeight b) = v\<lparr>isEditingWeight := b\<rparr>"
| "dispatch cp v (SetEditedWeight s) =
     (if s = editedWeight v then v else price_effect cp (v\<lparr>editedWeight := s\<rparr>))"
| "dispatch cp v (SetIsEditingName b) = v\<lparr>isEditingName := b\<rparr>"
| "dispatch cp v (SetEditedName s) = v\<lparr>editedName := s\<rparr>"
| "dispatch cp v (SetIsEditingAddress b) = v\<lparr>isEditingAddress := b\<rparr>"
| "dispatch cp v (SetEditedAddress s) = v\<lparr>editedAddress := s\<rparr>"

definition after_events ::
  "js_runtime \<Rightarrow> (jsnum \<Rightarrow> jsnum) \<Rightarrow> LaundryOrderResult \<Rightarrow> ui_event list \<Rightarrow> results_view" where
  "after_events rt cp data evs = foldl (dispatch cp) (mount rt cp data) evs"

definition handleSave :: "LaundryOrderResult \<Rightarrow> results_view \<Rightarrow> LaundryOrderResult" where
  "handleSave data v =
     data\<lparr>laundry_weight_kg := WNum (or_zero (parseFloat (editedWeight v))),
          price := Some (currentPrice v),
          customer_name := editedName v,
          delivery_address := editedAddress v\<rparr>"

text \<open>The latest text given to a field by the events, or the initial one.\<close>

fun latest_weight :: "string \<Rightarrow> ui_event list \<Rightarrow> string" where
  "latest_weight s [] = s"
| "latest_weight s (SetEditedWeight t # evs) = latest_weight t evs"
| "latest_weight s (e # evs) = latest_weight s evs"

fun latest_name :: "string \<Rightarrow> ui_event list \<Rightarrow> string" where
  "latest_name s [] = s"
| "latest_name s (SetEditedName t # evs) = latest_name t evs"
| "latest_name s (e # evs) = latest_name s evs"

fun latest_address :: "string \<Rightarrow> ui_event list \<Rightarrow> string" where
  "latest_address s [] = s"
| "latest_address s (SetEditedAddress t # evs) = latest_address t evs"
| "latest_address s (e # evs) = latest_address s evs"

subsection \<open>A sample runtime: UTC, en-US\<close>

text \<open>
  One runtime to evaluate the model on concrete ledgers: the calendar of the UTC time
  zone (days since the epoch to a civil date), dates and times as the en-US locale writes
  them, and numbers printed as plain decimals.
\<close>

definition utc_civil :: "int \<Rightarrow> int \<times> nat \<times> nat" where
  "utc_civil t =
     (let z = t div 86400000 + 719468;
          era = z div 146097;
          doe = z - era * 146097;
          yoe = (doe - doe div 1460 + doe div 36524 - doe div 146096) div 365;
          doy = doe - (365 * yoe + yoe div 4 - yoe div 100);
          mp = (5 * doy + 2) div 153;
          d = doy - (153 * mp + 2) div 5 + 1;
          m = (if mp < 10 then mp + 3 else mp - 9)
      in (yoe + era * 400 + (if m \<le> 2 then 1 else 0), nat (m - 1), nat d))"

definition month_names :: "string list" where
  "month_names = [''January'', ''February'', ''March'', ''April'', ''May'', ''June'', ''July'',
     ''August'', ''September'', ''October'', ''November'', ''December'']"

definition utc_time_text :: "int \<Rightarrow> string" where
  "utc_time_text t =
     (let secs = nat ((t mod 86400000) div 1000);
          h = secs div 3600;
          two = (\<lambda>n. padStart 2 (CHR ''0'') (string_of_nat n))
      in string_of_nat (if h mod 12 = 0 then 12 else h mod 12) @ '':'' @ two (secs div 60 mod 60)
         @ '':'' @ two (secs mod 60) @ (if h < 12 then '' AM'' else '' PM''))"

fun fraction_digits :: "nat \<Rightarrow> rat \<Rightarrow> string" where
  "fraction_digits 0 r = []"
| "fraction_digits (Suc k) r =
     (if r = 0 then []
      else digit_char (nat \<lfloor>r * 10\<rfloor>) # fraction_digits k (r * 10 - of_int \<lfloor>r * 10\<rfloor>))"

definition plain_number_text :: "jsnum \<Rightarrow> string" where
  "plain_number_text x =
     (case x of
        NaN \<Rightarrow> ''NaN''
      | PInf \<Rightarrow> ''Infinity''
      | NInf \<Rightarrow> ''-Infinity''
      | Fin q \<Rightarrow>
          (if q < 0 then ''-'' else []) @ string_of_nat (nat \<lfloor>\<bar>q\<bar>\<rfloor>) @
          (if \<bar>q\<bar> = of_int \<lfloor>\<bar>q\<bar>\<rfloor> then []
           else ''.'' @ fraction_digits 17 (\<bar>q\<bar> - of_int \<lfloor>\<bar>q\<bar>\<rfloor>)))"

definition utc_runtime :: js_runtime where
  "utc_runtime =
     \<lparr>getFullYear = (\<lambda>t. fst (utc_civil t)),
      getMonth = (\<lambda>t. fst (snd (utc_civil t))),
      toLocaleMonthYear =
        (\<lambda>t. month_names ! fst (snd (utc_civil t)) @ '' '' @ string_of_int (fst (utc_civil t))),
      toLocaleDateString =
        (\<lambda>t. string_of_nat (fst (snd (utc_civil t)) + 1) @ ''/'' @ string_of_nat (snd (snd (utc_civil t)))
              @ ''/'' @ string_of_int (fst (utc_civil t))),
      toLocaleTimeString = utc_time_text,
      numberToString = plain_number_text\<rparr>"

subsection \<open>Sample data\<close>

definition sample_order :: "string \<Rightarrow> int \<Rightarrow> weight \<Rightarrow> jsnum option \<Rightarrow> LaundryOrderResult" where
  "sample_order name t w p =
     \<lparr>laundry_service_name = name,
      shopify_order_number = ''1001'',
      customer_name = ''O'' @ [dquote] @ ''Brien'',
      delivery_address = ''1 Main St'' @ [newline] @ ''Lisbon'',
      laundry_weight_kg = w,
      price = p,
      extraction_confidence_score = Fin (9 / 10),
      timestamp = t,
      weight_image_src = None,
      customer_image_src = None\<rparr>"

text \<open>
  Three orders of the service Acme: 1 February 2024, 2 January 2024 and 1 January 2024,
  each at 00:00 UTC. The ledger keeps them newest first.
\<close>

definition acme_feb :: LaundryOrderResult where
  "acme_feb = sample_order ''Acme'' 1706745600000 (WNum (Fin 5)) (Some (Fin 10))"

definition acme_jan2 :: LaundryOrderResult where
  "acme_jan2 = sample_order ''Acme'' 1704153600000 (WNum (Fin 4)) (Some (Fin 8))"

definition acme_jan1 :: LaundryOrderResult where
  "acme_jan1 = sample_order ''Acme'' 1704067200000 (WNum (Fin 3)) (Some (Fin 6))"

definition acme_ledger :: "LaundryOrderResult list" where
  "acme_ledger = [acme_feb, acme_jan2, acme_jan1]"

definition selecting_state :: app_state where
  "selecting_state =
     \<lparr>step = INPUT, serviceName = [], weightPhoto = None, customerPhoto = None, error = None,
      result = None, history = acme_ledger, selectedOrder = None, isSelectionMode = True,
      selectedTimestamps = {1704153600000, 1704067200000}\<rparr>"

text \<open>
  The price the effect leaves for a weight text: the price of the parsed number, or 0
  when the text does not parse.
\<close>

definition price_for_text :: "(jsnum \<Rightarrow> jsnum) \<Rightarrow> string \<Rightarrow> jsnum" where
  "price_for_text cp s = (if isNaN (parseFloat s) then Fin 0 else cp (parseFloat s))"


text \<open>
  A text with exactly two decimal places: an optional minus sign, one or more digits, a
  point and two digits.
\<close>

definition two_decimals :: "string \<Rightarrow> bool" where
  "two_decimals s =
     (let t = (if take 1 s = ''-'' then drop 1 s else s);
          ip = take (length t - 3) t;
          fr = drop (length t - 3) t
      in ip \<noteq> [] \<and> list_all is_digit ip \<and> length fr = 3 \<and> take 1 fr = ''.''
         \<and> list_all is_digit (drop 1 fr))"

definition infinite_price_order :: LaundryOrderResult where
  "infinite_price_order = sample_order ''Acme'' 1704067200000 (WNum (Fin 3)) (Some PInf)"

subsection \<open>Reading the aggregation\<close>

text \<open>
  The service group stored under a month key and a service key; the records a month
  entry and a whole grouping hold, as multisets; and the records of a ledger that belong
  under a pair of keys.
\<close>

definition group_at :: "grouped \<Rightarrow> string \<Rightarrow> string \<Rightarrow> service_entry option" where
  "group_at g mk nk = (case map_of g mk of None \<Rightarrow> None | Some m \<Rightarrow> map_of (services m) nk)"

definition entry_records :: "month_entry \<Rightarrow> LaundryOrderResult multiset" where
  "entry_records m = (\<Sum>e\<leftarrow>services m. mset (records (snd e)))"

definition grouped_records :: "grouped \<Rightarrow> LaundryOrderResult multiset" where
  "grouped_records g = (\<Sum>p\<leftarrow>g. entry_records (snd p))"

definition records_under :: "js_runtime \<Rightarrow> string \<Rightarrow> string \<Rightarrow> LaundryOrderResult list \<Rightarrow> LaundryOrderResult list" where
  "records_under rt mk nk hist =
     filter (\<lambda>r. sortKey rt r = mk \<and> normalizedServiceKey r = nk) hist"

text \<open>The month entry and the service entry one call of the reducer works on.\<close>

definition month_before :: "js_runtime \<Rightarrow> grouped \<Rightarrow> LaundryOrderResult \<Rightarrow> month_entry" where
  "month_before rt acc cur =
     (case map_of acc (sortKey rt cur) of
        None \<Rightarrow> \<lparr>label = toLocaleMonthYear rt (timestamp cur), services = []\<rparr>
      | Some m \<Rightarrow> m)"

definition service_before :: "js_runtime \<Rightarrow> grouped \<Rightarrow> LaundryOrderResult \<Rightarrow> service_entry" where
  "service_before rt acc cur =
     (case map_of (services (month_before rt acc cur)) (normalizedServiceKey cur) of
        None \<Rightarrow> \<lparr>displayName = trim (laundry_service_name cur), records = []\<rparr>
      | Some e \<Rightarrow> e)"

definition step_result :: "js_runtime \<Rightarrow> grouped \<Rightarrow> LaundryOrderResult \<Rightarrow> grouped" where
  "step_result rt acc cur =
     AList.update (sortKey rt cur)
       ((month_before rt acc cur)
          \<lparr>services :=
             AList.update (normalizedServiceKey cur)
               ((service_before rt acc cur)\<lparr>records := records (service_before rt acc cur) @ [cur]\<rparr>)
               (services (month_before rt acc cur))\<rparr>)
       acc"

definition step_throws :: "js_runtime \<Rightarrow> grouped \<Rightarrow> LaundryOrderResult \<Rightarrow> bool" where
  "step_throws rt acc cur =
     ((map_of acc (sortKey rt cur) = None \<and> sortKey rt cur \<in> set object_prototype_names)
      \<or> (map_of (services (month_before rt acc cur)) (normalizedServiceKey cur) = None
          \<and> normalizedServiceKey cur \<in> set object_prototype_names))"

text \<open>The month group the page shows for an own entry of the grouping.\<close>

definition render_entry :: "string \<times> month_entry \<Rightarrow> month_group" where
  "render_entry p =
     \<lparr>sort_key_of = fst p, display_label = label (snd p),
      service_groups = map render_service (object_values (services (snd p)))\<rparr>"

definition month_records :: "month_group \<Rightarrow> LaundryOrderResult multiset" where
  "month_records m = (\<Sum>sg\<leftarrow>service_groups m. mset (group_records sg))"

text \<open>What the grouping holds under a pair of keys, given the records that belong there.\<close>

definition entry_of :: "LaundryOrderResult list \<Rightarrow> service_entry option" where
  "entry_of rs =
     (case rs of [] \<Rightarrow> None
      | r # rest \<Rightarrow> Some \<lparr>displayName = trim (laundry_service_name r), records = r # rest\<rparr>)"






definition display_names :: "js_error + month_group list \<Rightarrow> string list" where
  "display_names res =
     (case res of Inl e \<Rightarrow> [] | Inr v \<Rightarrow> map display_name (concat (map service_groups v)))"

text \<open>
  More sample ledgers, all of January 2024 but the last: one where the record met first
  writes the service in lower case between spaces; one with a record whose weight is
  unclear and a record without a price; and the Acme ledger with, ahead of it, an order of
  2 February 2024 for a service called Constructor.
\<close>

definition padded_jan2 :: LaundryOrderResult where
  "padded_jan2 = sample_order ''  acme '' 1704153600000 (WNum (Fin 4)) (Some (Fin 8))"

definition padded_first_ledger :: "LaundryOrderResult list" where
  "padded_first_ledger = [padded_jan2, acme_jan1]"

definition unclear_jan3 :: LaundryOrderResult where
  "unclear_jan3 = sample_order ''Acme'' 1704240000000 (WStr DATA_UNCLEAR) (Some (Fin 2))"

definition unpriced_jan2 :: LaundryOrderResult where
  "unpriced_jan2 = sample_order ''Acme'' 1704153600000 (WNum (Fin 4)) None"


definition constructor_feb :: LaundryOrderResult where
  "constructor_feb = sample_order ''Constructor'' 1706832000000 (WNum (Fin 2)) (Some (Fin 4))"

definition constructor_ledger :: "LaundryOrderResult list" where
  "constructor_ledger = constructor_feb # acme_ledger"

text \<open>What the page shows for the sample ledgers under the sample runtime.\<close>

definition acme_view :: "month_group list" where
  "acme_view =
     [\<lparr>sort_key_of = ''2024-02'', display_label = ''February 2024'',
       service_groups =
         [\<lparr>display_name = ''Acme'', group_records = [acme_feb],
           total_weight = Fin 5, total_price = Fin 10\<rparr>]\<rparr>,
      \<lparr>sort_key_of = ''2024-01'', display_label = ''January 2024'',
       service_groups =
         [\<lparr>display_name = ''Acme'', group_records = [acme_jan2, acme_jan1],
           total_weight = Fin 7, total_price = Fin 14\<rparr>]\<rparr>]"



definition padded_group :: service_group where
  "padded_group =
     \<lparr>display_name = ''acme'', group_records = [padded_jan2, acme_jan1],
      total_weight = Fin 7, total_price = Fin 14\<rparr>"

definition padded_view :: "month_group list" where
  "padded_view =
     [\<lparr>sort_key_of = ''2024-01'', display_label = ''January 2024'',
       service_groups = [padded_group]\<rparr>]"

section \<open>Properties\<close>

subsection \<open>Batch deletion\<close>

text \<open>
  Claim C4. Committing a deletion with the confirmation answered yes leaves exactly the
  records whose timestamp is not selected, in their order; when something was selected it
  also leaves selection mode and empties the selection. With an empty selection the
  handler changes nothing, whatever the answer would be, and so does a declined
  confirmation.
\<close>

theorem deleteSelected_commit:
  "history (deleteSelected True st) =
     filter (\<lambda>r. timestamp r \<notin> selectedTimestamps st) (history st)
   \<and> set (history (deleteSelected True st)) =
       set (history st) - {r. timestamp r \<in> selectedTimestamps st}
   \<and> (selectedTimestamps st \<noteq> {} \<longrightarrow>
        \<not> isSelectionMode (deleteSelected True st) \<and> selectedTimestamps (deleteSelected True st) = {})
   \<and> (selectedTimestamps st = {} \<longrightarrow> deleteSelected answer st = st)
   \<and> deleteSelected False st = st"
proof -
  have kept: "history (deleteSelected True st) =
      filter (\<lambda>r. timestamp r \<notin> selectedTimestamps st) (history st)"
    by (cases "selectedTimestamps st = {}") (simp_all add: deleteSelected_def)
  have "set (filter (\<lambda>r. timestamp r \<notin> selectedTimestamps st) (history st)) =
      set (history st) - {r. timestamp r \<in> selectedTimestamps st}"
    by auto
  with kept show ?thesis
    by (simp add: deleteSelected_def)
qed

theorem deleteSelected_commit_witness:
  "selectedTimestamps selecting_state \<noteq> {}
   \<and> history (deleteSelected True selecting_state) =
       [acme_feb]
   \<and> \<not> isSelectionMode (deleteSelected True selecting_state)
   \<and> selectedTimestamps (deleteSelected True selecting_state) = {}
   \<and> selectedTimestamps (selecting_state\<lparr>selectedTimestamps := {}\<rparr>) = {}
   \<and> deleteSelected True (selecting_state\<lparr>selectedTimestamps := {}\<rparr>) =
       selecting_state\<lparr>selectedTimestamps := {}\<rparr>"
  using deleteSelected_commit [of selecting_state True]
    deleteSelected_commit [of "selecting_state\<lparr>selectedTimestamps := {}\<rparr>" True]
  by (simp add: selecting_state_def acme_ledger_def acme_feb_def acme_jan2_def acme_jan1_def
      sample_order_def)

subsection \<open>The edit and recompute workflow\<close>

lemma price_effect_fields:
  "editedWeight (price_effect cp v) = editedWeight v"
  "editedName (price_effect cp v) = editedName v"
  "editedAddress (price_effect cp v) = editedAddress v"
  "currentPrice (price_effect cp v) = price_for_text cp (editedWeight v)"
  by (simp_all add: price_effect_def price_for_text_def Let_def)

lemma dispatch_editedWeight:
  "editedWeight (dispatch cp v e) = latest_weight (editedWeight v) [e]"
  by (cases e) (simp_all add: price_effect_fields)

lemma dispatch_editedName:
  "editedName (dispatch cp v e) = latest_name (editedName v) [e]"
  by (cases e) (simp_all add: price_effect_fields)

lemma dispatch_editedAddress:
  "editedAddress (dispatch cp v e) = latest_address (editedAddress v) [e]"
  by (cases e) (simp_all add: price_effect_fields)

lemma dispatch_currentPrice:
  "currentPrice v = price_for_text cp (editedWeight v) \<Longrightarrow>
   currentPrice (dispatch cp v e) = price_for_text cp (editedWeight (dispatch cp v e))"
  by (cases e) (simp_all add: price_effect_fields)

lemma latest_weight_step: "latest_weight s (e # evs) = latest_weight (latest_weight s [e]) evs"
  by (cases e) simp_all

lemma latest_name_step: "latest_name s (e # evs) = latest_name (latest_name s [e]) evs"
  by (cases e) simp_all

lemma latest_address_step: "latest_address s (e # evs) = latest_address (latest_address s [e]) evs"
  by (cases e) simp_all

lemma foldl_dispatch_fields:
  "editedWeight (foldl (dispatch cp) v evs) = latest_weight (editedWeight v) evs"
  "editedName (foldl (dispatch cp) v evs) = latest_name (editedName v) evs"
  "editedAddress (foldl (dispatch cp) v evs) = latest_address (editedAddress v) evs"
proof (induction evs arbitrary: v)
  case Nil
  {
    case 1 show ?case by simp
  next
    case 2 show ?case by simp
  next
    case 3 show ?case by simp
  }
next
  case (Cons e evs)
  {
    case 1 show ?case
      using Cons.IH(1) [of "dispatch cp v e"] latest_weight_step [of "editedWeight v" e evs]
      by (simp add: dispatch_editedWeight)
  next
    case 2 show ?case
      using Cons.IH(2) [of "dispatch cp v e"] latest_name_step [of "editedName v" e evs]
      by (simp add: dispatch_editedName)
  next
    case 3 show ?case
      using Cons.IH(3) [of "dispatch cp v e"] latest_address_step [of "editedAddress v" e evs]
      by (simp add: dispatch_editedAddress)
  }
qed

lemma foldl_dispatch_price:
  "currentPrice v = price_for_text cp (editedWeight v) \<Longrightarrow>
   currentPrice (foldl (dispatch cp) v evs) = price_for_text cp (editedWeight (foldl (dispatch cp) v evs))"
proof (induction evs arbitrary: v)
  case Nil
  then show ?case by simp
next
  case (Cons e evs)
  from Cons.prems have "currentPrice (dispatch cp v e) = price_for_text cp (editedWeight (dispatch cp v e))"
    by (rule dispatch_currentPrice)
  then show ?case
    using Cons.IH [of "dispatch cp v e"] by simp
qed

lemma after_events_fields:
  "editedWeight (after_events rt cp data evs) = latest_weight (weight_text rt (laundry_weight_kg data)) evs"
  "editedName (after_events rt cp data evs) = latest_name (customer_name data) evs"
  "editedAddress (after_events rt cp data evs) = latest_address (delivery_address data) evs"
  "currentPrice (after_events rt cp data evs) = price_for_text cp (editedWeight (after_events rt cp data evs))"
proof -
  have m: "currentPrice (mount rt cp data) = price_for_text cp (editedWeight (mount rt cp data))"
    by (simp add: mount_def price_effect_fields)
  show "editedWeight (after_events rt cp data evs) = latest_weight (weight_text rt (laundry_weight_kg data)) evs"
    by (simp add: after_events_def foldl_dispatch_fields mount_def price_effect_fields initial_view_def)
  show "editedName (after_events rt cp data evs) = latest_name (customer_name data) evs"
    by (simp add: after_events_def foldl_dispatch_fields mount_def price_effect_fields initial_view_def)
  show "editedAddress (after_events rt cp data evs) = latest_address (delivery_address data) evs"
    by (simp add: after_events_def foldl_dispatch_fields mount_def price_effect_fields initial_view_def)
  show "currentPrice (after_events rt cp data evs) = price_for_text cp (editedWeight (after_events rt cp data evs))"
    unfolding after_events_def using m by (rule foldl_dispatch_price)
qed

lemma latest_weight_append: "latest_weight s (evs @ [SetEditedWeight t]) = t"
proof (induction evs arbitrary: s)
  case Nil
  show ?case by simp
next
  case (Cons e evs)
  then show ?case by (cases e) simp_all
qed

lemma parseFloat_abc: "parseFloat ''abc'' = NaN"
  by code_simp

lemma parseFloat_12_5: "parseFloat ''12.5'' = Fin (25 / 2)"
  by code_simp

text \<open>
  Claim C6. After any sequence of edits, a change of the weight text to \<open>s\<close> leaves the
  working price at \<^verbatim>\<open>calculatePrice\<close> of the parsed number, or at exactly 0 when \<open>s\<close> does
  not parse; the text \<^verbatim>\<open>abc\<close> gives 0, and changing it back to \<^verbatim>\<open>12.5\<close> gives
  \<^verbatim>\<open>calculatePrice(12.5)\<close>, for every pricing function.
\<close>

theorem weight_edit_recomputes_price:
  "currentPrice (after_events rt cp data (evs @ [SetEditedWeight s])) =
     (if isNaN (parseFloat s) then Fin 0 else cp (parseFloat s))
   \<and> currentPrice (after_events rt cp data (evs @ [SetEditedWeight ''abc''])) = Fin 0
   \<and> currentPrice (after_events rt cp data (evs @ [SetEditedWeight ''abc'', SetEditedWeight ''12.5''])) =
       cp (Fin (25 / 2))"
proof -
  have one: "currentPrice (after_events rt cp data (es @ [SetEditedWeight t])) = price_for_text cp t" for es t
    by (simp add: after_events_fields(4) after_events_fields(1) latest_weight_append)
  have two: "evs @ [SetEditedWeight ''abc'', SetEditedWeight ''12.5''] =
      (evs @ [SetEditedWeight ''abc'']) @ [SetEditedWeight ''12.5'']"
    by simp
  show ?thesis
    unfolding two one
    by (simp add: price_for_text_def parseFloat_abc parseFloat_12_5 isNaN_def)
qed

theorem weight_edit_recomputes_price_witness:
  "\<not> isNaN (parseFloat ''7'')
   \<and> currentPrice (after_events utc_runtime (\<lambda>w. js_add w w)
        (sample_order ''Acme'' 0 (WStr DATA_UNCLEAR) (Some (Fin 3))) [SetEditedWeight ''7'']) = Fin 14
   \<and> currentPrice (after_events utc_runtime (\<lambda>w. js_add w w)
        (sample_order ''Acme'' 0 (WStr DATA_UNCLEAR) (Some (Fin 3))) [SetEditedWeight ''7'', SetEditedWeight ''abc'']) = Fin 0"
proof -
  have p: "parseFloat ''7'' = Fin 7" by code_simp
  show ?thesis
    using weight_edit_recomputes_price [of utc_runtime "\<lambda>w. js_add w w"
        "sample_order ''Acme'' 0 (WStr DATA_UNCLEAR) (Some (Fin 3))" "[]" "''7''"]
      weight_edit_recomputes_price [of utc_runtime "\<lambda>w. js_add w w"
        "sample_order ''Acme'' 0 (WStr DATA_UNCLEAR) (Some (Fin 3))" "[SetEditedWeight ''7'']" "''7''"]
    by (simp add: p isNaN_def)
qed


text \<open>
  Claim C5. The record \<^verbatim>\<open>handleSave\<close> builds keeps the draft's confidence, timestamp, order
  number, two image references and service name; after any sequence of edits its weight,
  price, customer name and delivery address are read from the latest working values (the
  weight parsed, the price as the effect left it for that weight text).
\<close>

theorem confirm_keeps_frame_and_reads_edits:
  "extraction_confidence_score (handleSave data v) = extraction_confidence_score data
   \<and> timestamp (handleSave data v) = timestamp data
   \<and> shopify_order_number (handleSave data v) = shopify_order_number data
   \<and> weight_image_src (handleSave data v) = weight_image_src data
   \<and> customer_image_src (handleSave data v) = customer_image_src data
   \<and> laundry_service_name (handleSave data v) = laundry_service_name data
   \<and> laundry_weight_kg (handleSave data (after_events rt cp data evs)) =
       WNum (or_zero (parseFloat (latest_weight (weight_text rt (laundry_weight_kg data)) evs)))
   \<and> price (handleSave data (after_events rt cp data evs)) =
       Some (price_for_text cp (latest_weight (weight_text rt (laundry_weight_kg data)) evs))
   \<and> customer_name (handleSave data (after_events rt cp data evs)) = latest_name (customer_name data) evs
   \<and> delivery_address (handleSave data (after_events rt cp data evs)) =
       latest_address (delivery_address data) evs"
  by (simp add: handleSave_def after_events_fields)

theorem confirm_keeps_frame_and_reads_edits_witness:
  "handleSave (sample_order ''Acme'' 5 (WNum (Fin 3)) (Some (Fin 6)))
     (after_events utc_runtime (\<lambda>w. js_add w w) (sample_order ''Acme'' 5 (WNum (Fin 3)) (Some (Fin 6)))
        [SetEditedWeight ''12.5'', SetEditedName ''Ann'', SetEditedAddress ''2 High St'', SetEditedName ''Bea''])
   = \<lparr>laundry_service_name = ''Acme'',
      shopify_order_number = ''1001'',
      customer_name = ''Bea'',
      delivery_address = ''2 High St'',
      laundry_weight_kg = WNum (Fin (25 / 2)),
      price = Some (Fin 25),
      extraction_confidence_score = Fin (9 / 10),
      timestamp = 5,
      weight_image_src = None,
      customer_image_src = None\<rparr>"
proof -
  let ?d = "sample_order ''Acme'' 5 (WNum (Fin 3)) (Some (Fin 6))"
  let ?evs = "[SetEditedWeight ''12.5'', SetEditedName ''Ann'', SetEditedAddress ''2 High St'', SetEditedName ''Bea'']"
  have fields: "handleSave ?d (after_events utc_runtime (\<lambda>w. js_add w w) ?d ?evs) =
      ?d\<lparr>laundry_weight_kg := laundry_weight_kg (handleSave ?d (after_events utc_runtime (\<lambda>w. js_add w w) ?d ?evs)),
          price := price (handleSave ?d (after_events utc_runtime (\<lambda>w. js_add w w) ?d ?evs)),
          customer_name := customer_name (handleSave ?d (after_events utc_runtime (\<lambda>w. js_add w w) ?d ?evs)),
          delivery_address := delivery_address (handleSave ?d (after_events utc_runtime (\<lambda>w. js_add w w) ?d ?evs))\<rparr>"
    by (simp add: handleSave_def)
  show ?thesis
    apply (subst fields)
    using confirm_keeps_frame_and_reads_edits [of ?d _ utc_runtime "\<lambda>w. js_add w w" ?evs]
    apply (simp add: parseFloat_12_5 price_for_text_def isNaN_def or_zero_def sample_order_def)
    done
qed

lemma latest_weight_unedited:
  "\<forall>s. SetEditedWeight s \<notin> set evs \<Longrightarrow> latest_weight t evs = t"
proof (induction evs)
  case Nil
  show ?case by simp
next
  case (Cons e evs)
  then show ?case by (cases e) auto
qed

lemma parseFloat_DATA_UNCLEAR: "parseFloat DATA_UNCLEAR = NaN"
  by code_simp

text \<open>
  Claim C10. The weight of a record built by \<^verbatim>\<open>handleSave\<close> is a number other than NaN
  and never a string; it is 0 when the working text does not parse, in particular when the
  draft came with \<^verbatim>\<open>DATA_UNCLEAR\<close> and the weight was never edited. That record is the one
  \<^verbatim>\<open>handleSaveAndReset\<close> puts at the head of the ledger.
\<close>

theorem saved_weight_is_a_number:
  "(\<exists>n. laundry_weight_kg (handleSave data v) = WNum n \<and> n \<noteq> NaN)
   \<and> (\<forall>s. laundry_weight_kg (handleSave data v) \<noteq> WStr s)
   \<and> (isNaN (parseFloat (editedWeight v)) \<longrightarrow> laundry_weight_kg (handleSave data v) = WNum (Fin 0))
   \<and> (laundry_weight_kg data = WStr DATA_UNCLEAR \<and> (\<forall>s. SetEditedWeight s \<notin> set evs) \<longrightarrow>
        laundry_weight_kg (handleSave data (after_events rt cp data evs)) = WNum (Fin 0))
   \<and> history (handleSaveAndReset (handleSave data v) st) = handleSave data v # history st"
proof -
  have unclear: "laundry_weight_kg (handleSave data (after_events rt cp data evs)) = WNum (Fin 0)"
    if "laundry_weight_kg data = WStr DATA_UNCLEAR" and "\<forall>s. SetEditedWeight s \<notin> set evs"
  proof -
    from that have "editedWeight (after_events rt cp data evs) = DATA_UNCLEAR"
      by (simp add: after_events_fields latest_weight_unedited weight_text_def)
    then show ?thesis
      by (simp add: handleSave_def parseFloat_DATA_UNCLEAR or_zero_def)
  qed
  have number: "\<exists>n. laundry_weight_kg (handleSave data v) = WNum n \<and> n \<noteq> NaN"
    by (simp add: handleSave_def or_zero_def)
  show ?thesis
    using unclear number
    by (simp add: handleSave_def handleSaveAndReset_def or_zero_def isNaN_def)
qed

theorem saved_weight_is_a_number_witness:
  "laundry_weight_kg (sample_order ''Acme'' 5 (WStr DATA_UNCLEAR) (Some (Fin 6))) = WStr DATA_UNCLEAR
   \<and> (\<forall>s. SetEditedWeight s \<notin> set [SetEditedName ''Ann''])
   \<and> laundry_weight_kg (handleSave (sample_order ''Acme'' 5 (WStr DATA_UNCLEAR) (Some (Fin 6)))
        (after_events utc_runtime (\<lambda>w. js_add w w) (sample_order ''Acme'' 5 (WStr DATA_UNCLEAR) (Some (Fin 6)))
           [SetEditedName ''Ann''])) = WNum (Fin 0)
   \<and> isNaN (parseFloat (editedWeight (mount utc_runtime (\<lambda>w. js_add w w) (sample_order ''Acme'' 5 (WStr DATA_UNCLEAR) (Some (Fin 6))))))
   \<and> laundry_weight_kg (handleSave (sample_order ''Acme'' 5 (WStr DATA_UNCLEAR) (Some (Fin 6)))
        (mount utc_runtime (\<lambda>w. js_add w w) (sample_order ''Acme'' 5 (WStr DATA_UNCLEAR) (Some (Fin 6))))) = WNum (Fin 0)"
proof -
  let ?d = "sample_order ''Acme'' 5 (WStr DATA_UNCLEAR) (Some (Fin 6))"
  have w: "editedWeight (mount utc_runtime (\<lambda>w. js_add w w) ?d) = DATA_UNCLEAR"
    by (simp add: mount_def price_effect_fields initial_view_def weight_text_def sample_order_def)
  have d: "laundry_weight_kg ?d = WStr DATA_UNCLEAR"
    by (simp add: sample_order_def)
  show ?thesis
    using saved_weight_is_a_number [of ?d "mount utc_runtime (\<lambda>w. js_add w w) ?d" "[SetEditedName ''Ann'']"
        utc_runtime "\<lambda>w. js_add w w"] d
    by (simp add: w parseFloat_DATA_UNCLEAR isNaN_def)
qed

subsection \<open>Loading the ledger\<close>



subsection \<open>CSV quoting\<close>

lemma replace_dquotes_Cons:
  "replace_dquotes (c # s) = (if c = dquote then [dquote, dquote] else [c]) @ replace_dquotes s"
  by (simp add: replace_dquotes_def)

lemma unquote_body_quoted: "unquote_body (replace_dquotes s @ [dquote]) = Some s"
proof (induction s)
  case Nil
  show ?case by (simp add: replace_dquotes_def)
next
  case (Cons c s)
  obtain d r where rest: "replace_dquotes s @ [dquote] = d # r"
    by (cases "replace_dquotes s") auto
  show ?case
  proof (cases "c = dquote")
    case True
    with Cons.IH show ?thesis by (simp add: replace_dquotes_Cons)
  next
    case False
    with Cons.IH rest show ?thesis by (simp add: replace_dquotes_Cons)
  qed
qed

lemma csv_unquote_quote_field: "csv_unquote (quote_field s) = Some s"
  by (simp add: csv_unquote_def quote_field_def or_empty_def unquote_body_quoted)

lemma replace_commute: "replace_newlines (replace_dquotes s) = replace_dquotes (replace_newlines s)"
  by (induction s) (simp_all add: replace_newlines_def replace_dquotes_def dquote_def newline_def)

lemma csv_unquote_quote_address: "csv_unquote (quote_address s) = Some (replace_newlines s)"
  by (simp add: csv_unquote_def quote_address_def or_empty_def replace_commute unquote_body_quoted)

lemma newline_free_address: "newline \<notin> set (quote_address s)"
proof -
  have "newline \<notin> set (replace_newlines t)" for t
    by (induction t) (simp_all add: replace_newlines_def newline_def)
  then show ?thesis
    by (simp add: quote_address_def dquote_def newline_def)
qed

text \<open>
  Claim C8. The four string cells of a row are wrapped in double quotes with every double
  quote inside doubled; the address cell is that of the address with each newline replaced
  by one space, so it holds no newline. Unquoting a quoted field as standard CSV does
  gives the string back: for every string, and for \<^verbatim>\<open>O"Brien\<close>.
\<close>

theorem csv_quoting_round_trip:
  "quote_field s = [dquote] @ concat (map (\<lambda>c. if c = dquote then [dquote, dquote] else [c]) s) @ [dquote]
   \<and> csv_cells rt row ! 2 = quote_field (laundry_service_name row)
   \<and> csv_cells rt row ! 3 = quote_field (shopify_order_number row)
   \<and> csv_cells rt row ! 4 = quote_field (customer_name row)
   \<and> csv_cells rt row ! 5 = quote_address (delivery_address row)
   \<and> quote_address a = quote_field (map (\<lambda>c. if c = newline then CHR '' '' else c) a)
   \<and> newline \<notin> set (quote_address a)
   \<and> csv_unquote (quote_field s) = Some s
   \<and> quote_field (''O'' @ [dquote] @ ''Brien'') = [dquote] @ ''O'' @ [dquote, dquote] @ ''Brien'' @ [dquote]
   \<and> csv_unquote ([dquote] @ ''O'' @ [dquote, dquote] @ ''Brien'' @ [dquote]) = Some (''O'' @ [dquote] @ ''Brien'')"
proof -
  have q: "quote_field s = [dquote] @ concat (map (\<lambda>c. if c = dquote then [dquote, dquote] else [c]) s) @ [dquote]"
    by (simp add: quote_field_def or_empty_def replace_dquotes_def)
  have a: "quote_address a = quote_field (map (\<lambda>c. if c = newline then CHR '' '' else c) a)"
    using replace_commute [of a]
    by (simp add: quote_address_def quote_field_def or_empty_def replace_newlines_def)
  have ob: "quote_field (''O'' @ [dquote] @ ''Brien'') = [dquote] @ ''O'' @ [dquote, dquote] @ ''Brien'' @ [dquote]"
    by (simp add: quote_field_def or_empty_def replace_dquotes_def dquote_def)
  have unq: "csv_unquote ([dquote] @ ''O'' @ [dquote, dquote] @ ''Brien'' @ [dquote]) = Some (''O'' @ [dquote] @ ''Brien'')"
    using csv_unquote_quote_field [of "''O'' @ [dquote] @ ''Brien''"] by (simp only: ob)
  have cells: "csv_cells rt row ! 2 = quote_field (laundry_service_name row)"
    "csv_cells rt row ! 3 = quote_field (shopify_order_number row)"
    "csv_cells rt row ! 4 = quote_field (customer_name row)"
    "csv_cells rt row ! 5 = quote_address (delivery_address row)"
    by (simp_all add: csv_cells_def)
  from q cells a newline_free_address [of a] csv_unquote_quote_field [of s] ob unq
  show ?thesis by blast
qed

subsection \<open>The CSV export\<close>

lemma is_digit_iff: "is_digit c \<longleftrightarrow> 48 \<le> (of_char c :: nat) \<and> (of_char c :: nat) \<le> 57"
  by (simp add: is_digit_def less_eq_char_def)

lemma digit_char_is_digit: "d < 10 \<Longrightarrow> is_digit (digit_char d)"
  by (simp add: is_digit_iff digit_char_def)

lemma string_of_nat_digits: "list_all is_digit (string_of_nat n) \<and> string_of_nat n \<noteq> []"
proof (induction n rule: string_of_nat.induct)
  case (1 n)
  show ?case
  proof (cases "n < 10")
    case True
    then show ?thesis
      by (subst (1 2) string_of_nat.simps) (simp add: digit_char_is_digit)
  next
    case False
    with 1 show ?thesis
      by (subst (1 2) string_of_nat.simps) (simp add: digit_char_is_digit)
  qed
qed

lemma padStart_digits:
  "list_all is_digit s \<Longrightarrow> list_all is_digit (padStart n (CHR ''0'') s) \<and> n \<le> length (padStart n (CHR ''0'') s)"
  by (auto simp: padStart_def is_digit_def list_all_iff)

lemma not_minus_digit: "is_digit c \<Longrightarrow> c \<noteq> CHR ''-''"
  by (auto simp: is_digit_iff)

lemma two_decimals_point:
  assumes "list_all is_digit m" and "3 \<le> length m" and sg: "sg = ''-'' \<or> sg = []"
  shows "two_decimals (sg @ take (length m - 2) m @ ''.'' @ drop (length m - 2) m)"
proof -
  let ?a = "take (length m - 2) m" and ?b = "drop (length m - 2) m"
  let ?t = "?a @ ''.'' @ ?b"
  from assms have a: "?a \<noteq> []" "list_all is_digit ?a"
    by (auto simp: list_all_iff dest: in_set_takeD)
  from assms have b: "length ?b = 2" "list_all is_digit ?b"
    by (auto simp: list_all_iff dest: in_set_dropD)
  from a obtain c r where c: "?a = c # r" "is_digit c"
    by (cases ?a) auto
  have strip: "(if take 1 (sg @ ?t) = ''-'' then drop 1 (sg @ ?t) else sg @ ?t) = ?t"
    using sg c not_minus_digit [of c] by auto
  have len: "length ?t - 3 = length ?a"
    using b by simp
  have "take (length ?a) ?t = ?a" "drop (length ?a) ?t = ''.'' @ ?b"
    by simp_all
  with a b show ?thesis
    unfolding two_decimals_def Let_def strip len by simp
qed

lemma toFixed2_two_decimals:
  assumes "\<bar>q\<bar> < 10 ^ 21"
  shows "two_decimals (toFixed2 rt (Fin q))"
proof -
  let ?m = "padStart 3 (CHR ''0'') (string_of_nat (nat \<lfloor>\<bar>q\<bar> * 100 + 1 / 2\<rfloor>))"
  have m: "list_all is_digit ?m" "3 \<le> length ?m"
    using padStart_digits [of "string_of_nat (nat \<lfloor>\<bar>q\<bar> * 100 + 1 / 2\<rfloor>)" 3] string_of_nat_digits
    by simp_all
  have "toFixed2 rt (Fin q) = (if q < 0 then ''-'' else []) @ take (length ?m - 2) ?m @ ''.'' @ drop (length ?m - 2) ?m"
    using assms by (simp add: toFixed2_def Let_def)
  moreover have "two_decimals ((if q < 0 then ''-'' else []) @ take (length ?m - 2) ?m @ ''.'' @ drop (length ?m - 2) ?m)"
    using m by (intro two_decimals_point) auto
  ultimately show ?thesis by simp
qed

lemma toFixed2_zero: "toFixed2 rt (Fin 0) = ''0.00''"
  by code_simp

lemma csvRows_foldl:
  "foldl (\<lambda>rows row. rows @ [join '','' (csv_cells rt row)]) acc hist =
     acc @ map (\<lambda>row. join '','' (csv_cells rt row)) hist"
  by (induction hist arbitrary: acc) simp_all

lemma csvRows_map:
  "csvRows rt hist = join '','' headers # map (\<lambda>row. join '','' (csv_cells rt row)) hist"
  by (simp add: csvRows_def csvRows_foldl)

text \<open>
  Claim C7, as stated, fails on a price that \<^verbatim>\<open>toFixed\<close> does not print in fixed notation:
  for an infinite price the export is produced and the price cell is \<^verbatim>\<open>Infinity\<close>.
\<close>

theorem price_cell_not_two_decimals:
  "exportToCSV utc_runtime ''2024-01-01'' [infinite_price_order] \<noteq> None
   \<and> csv_cells utc_runtime infinite_price_order ! 7 = ''Infinity''
   \<and> \<not> two_decimals (csv_cells utc_runtime infinite_price_order ! 7)"
proof -
  have cell: "csv_cells utc_runtime infinite_price_order ! 7 = ''Infinity''"
    by (simp add: csv_cells_def infinite_price_order_def sample_order_def price_or_zero_def or_zero_def toFixed2_def)
  have "\<not> two_decimals ''Infinity''"
    by code_simp
  with cell show ?thesis
    by (simp add: exportToCSV_def)
qed

text \<open>
  Claim C7, amended. For a ledger that is not empty the export is one header row followed
  by one row per record in the ledger's own order, each row the eight cells Date, Time,
  Laundry Service, Order Number, Customer Name, Delivery Address, Weight, Price joined by
  commas; the weight cell is the stored string, or the number's text, unquoted; the price
  cell is \<^verbatim>\<open>0.00\<close> for an absent (or NaN) price and has exactly two decimal places for every
  price that is absent, NaN or finite and below \<open>10^21\<close> in size. The empty ledger gives
  no download.
\<close>

theorem exportToCSV_rows:
  "(hist \<noteq> [] \<longrightarrow>
      exportToCSV rt today hist =
        Some \<lparr>file_name = ''laundry-tracker-export-'' @ today @ ''.csv'', mime_type = ''text/csv'',
              content = join [newline] (csvRows rt hist)\<rparr>)
   \<and> csvRows rt hist = join '','' headers # map (\<lambda>row. join '','' (csv_cells rt row)) hist
   \<and> length (csvRows rt hist) = 1 + length hist
   \<and> join '','' headers =
       ''Date,Time,Laundry Service,Order Number,Customer Name,Delivery Address,Weight (kg),Price (EUR)''
   \<and> csv_cells rt row =
       [toLocaleDateString rt (timestamp row), toLocaleTimeString rt (timestamp row),
        quote_field (laundry_service_name row), quote_field (shopify_order_number row),
        quote_field (customer_name row), quote_address (delivery_address row),
        (case laundry_weight_kg row of WNum n \<Rightarrow> numberToString rt n | WStr s \<Rightarrow> s),
        toFixed2 rt (case price row of None \<Rightarrow> Fin 0 | Some p \<Rightarrow> if p = NaN then Fin 0 else p)]
   \<and> (price row = None \<or> price row = Some NaN \<longrightarrow> csv_cells rt row ! 7 = ''0.00'')
   \<and> (price row = None \<or> price row = Some NaN \<or> (\<exists>q. price row = Some (Fin q) \<and> \<bar>q\<bar> < 10 ^ 21) \<longrightarrow>
        two_decimals (csv_cells rt row ! 7))
   \<and> exportToCSV rt today [] = None"
proof -
  have hd: "join '','' headers =
       ''Date,Time,Laundry Service,Order Number,Customer Name,Delivery Address,Weight (kg),Price (EUR)''"
    by (simp add: headers_def)
  have pz: "price_or_zero p = (case p of None \<Rightarrow> Fin 0 | Some p \<Rightarrow> if p = NaN then Fin 0 else p)" for p
    by (auto simp: price_or_zero_def or_zero_def split: option.splits)
  have cells: "csv_cells rt row =
       [toLocaleDateString rt (timestamp row), toLocaleTimeString rt (timestamp row),
        quote_field (laundry_service_name row), quote_field (shopify_order_number row),
        quote_field (customer_name row), quote_address (delivery_address row),
        (case laundry_weight_kg row of WNum n \<Rightarrow> numberToString rt n | WStr s \<Rightarrow> s),
        toFixed2 rt (case price row of None \<Rightarrow> Fin 0 | Some p \<Rightarrow> if p = NaN then Fin 0 else p)]"
    by (simp add: csv_cells_def weight_text_def pz)
  have cell7: "csv_cells rt row ! 7 = toFixed2 rt (price_or_zero (price row))"
    by (simp add: csv_cells_def)
  have zero: "price row = None \<or> price row = Some NaN \<Longrightarrow> csv_cells rt row ! 7 = ''0.00''"
    by (auto simp: cell7 price_or_zero_def or_zero_def toFixed2_zero)
  have "two_decimals ''0.00''"
    by code_simp
  with zero have dec0: "price row = None \<or> price row = Some NaN \<Longrightarrow> two_decimals (csv_cells rt row ! 7)"
    by simp
  have decq: "two_decimals (csv_cells rt row ! 7)" if "price row = Some (Fin q)" "\<bar>q\<bar> < 10 ^ 21" for q
  proof (cases "q = 0")
    case True
    with that dec0 show ?thesis
      using toFixed2_two_decimals [of 0 rt] by (simp add: cell7 price_or_zero_def or_zero_def)
  next
    case False
    with that show ?thesis
      using toFixed2_two_decimals [of q rt] by (simp add: cell7 price_or_zero_def or_zero_def)
  qed
  have dec: "price row = None \<or> price row = Some NaN \<or> (\<exists>q. price row = Some (Fin q) \<and> \<bar>q\<bar> < 10 ^ 21) \<longrightarrow>
        two_decimals (csv_cells rt row ! 7)"
    using dec0 decq by blast
  have ex: "hist \<noteq> [] \<longrightarrow>
      exportToCSV rt today hist =
        Some \<lparr>file_name = ''laundry-tracker-export-'' @ today @ ''.csv'', mime_type = ''text/csv'',
              content = join [newline] (csvRows rt hist)\<rparr>"
    by (simp add: exportToCSV_def)
  have none: "exportToCSV rt today [] = None"
    by (simp add: exportToCSV_def)
  have len: "length (csvRows rt hist) = 1 + length hist"
    by (simp add: csvRows_map)
  from ex csvRows_map [of rt hist] len hd cells zero dec none
  show ?thesis by blast
qed


theorem exportToCSV_rows_witness:
  "acme_ledger \<noteq> []
   \<and> exportToCSV utc_runtime ''2024-02-01'' acme_ledger =
       Some \<lparr>file_name = ''laundry-tracker-export-2024-02-01.csv'', mime_type = ''text/csv'',
             content = join [newline] (csvRows utc_runtime acme_ledger)\<rparr>
   \<and> length (csvRows utc_runtime acme_ledger) = 4
   \<and> price (hd acme_ledger) = Some (Fin 10) \<and> \<bar>10 :: rat\<bar> < 10 ^ 21
   \<and> two_decimals (csv_cells utc_runtime (hd acme_ledger) ! 7)
   \<and> csv_cells utc_runtime (hd acme_ledger) ! 7 = ''10.00''
   \<and> csv_cells utc_runtime (hd acme_ledger) ! 6 = ''5''
   \<and> take 2 (csv_cells utc_runtime (hd acme_ledger)) = [''2/1/2024'', ''12:00:00 AM'']"
proof -
  have p: "price (hd acme_ledger) = Some (Fin 10)"
    by (simp add: acme_ledger_def acme_feb_def sample_order_def)
  have f: "toFixed2 utc_runtime (Fin 10) = ''10.00''"
    by code_simp
  have c7: "csv_cells utc_runtime (hd acme_ledger) ! 7 = ''10.00''"
    by (simp add: csv_cells_def p price_or_zero_def or_zero_def f)
  have n: "plain_number_text (Fin 5) = ''5''"
    by code_simp
  have c6: "csv_cells utc_runtime (hd acme_ledger) ! 6 = ''5''"
    by (simp add: csv_cells_def acme_ledger_def acme_feb_def sample_order_def weight_text_def
        utc_runtime_def n)
  have c01: "take 2 (csv_cells utc_runtime (hd acme_ledger)) = [''2/1/2024'', ''12:00:00 AM'']"
    by code_simp
  have ne: "acme_ledger \<noteq> []"
    by (simp add: acme_ledger_def)
  have len: "length acme_ledger = 3"
    by (simp add: acme_ledger_def)
  show ?thesis
    using exportToCSV_rows [of acme_ledger utc_runtime "''2024-02-01''" "hd acme_ledger"] p c7 c6 c01 ne len
    by simp
qed

subsection \<open>The reducer of the aggregation\<close>

lemma get_property_Own: "get_property obj k = Own v \<longleftrightarrow> map_of obj k = Some v"
  by (auto simp: get_property_def split: option.splits)

lemma get_property_None:
  "map_of obj k = None \<Longrightarrow>
   get_property obj k = (if k \<in> set object_prototype_names then Inherited else Undefined)"
  by (simp add: get_property_def)

lemma get_property_Some: "map_of obj k = Some v \<Longrightarrow> get_property obj k = Own v"
  by (simp add: get_property_def)

lemma group_step_cases:
  "group_step rt acc cur =
     (if step_throws rt acc cur then Inl TypeError else Inr (step_result rt acc cur))"
proof -
  let ?sk = "sortKey rt cur" and ?nk = "normalizedServiceKey cur"
  show ?thesis
  proof (cases "map_of acc ?sk")
    case None
    note month = this
    show ?thesis
    proof (cases "?sk \<in> set object_prototype_names")
      case True
      with month show ?thesis
        by (simp add: group_step_def step_throws_def Let_def get_property_None)
    next
      case False
      with month show ?thesis
        by (simp add: group_step_def step_throws_def step_result_def month_before_def
            service_before_def normalizedServiceKey_def Let_def get_property_None
            get_property_Some AList.update_conv')
    qed
  next
    case (Some m)
    note month = this
    show ?thesis
    proof (cases "map_of (services m) ?nk")
      case None
      with month show ?thesis
        by (simp add: group_step_def step_throws_def step_result_def month_before_def
            service_before_def normalizedServiceKey_def Let_def get_property_None
            get_property_Some AList.update_conv')
    next
      case (Some e)
      with month show ?thesis
        by (simp add: group_step_def step_throws_def step_result_def month_before_def
            service_before_def normalizedServiceKey_def Let_def get_property_None
            get_property_Some AList.update_conv')
    qed
  qed
qed

lemma services_month_before:
  "map_of (services (month_before rt acc cur)) nk = group_at acc (sortKey rt cur) nk"
  by (simp add: month_before_def group_at_def split: option.splits)

lemma group_at_step_result:
  "group_at (step_result rt acc cur) mk nk =
     (if mk = sortKey rt cur \<and> nk = normalizedServiceKey cur
      then Some (case group_at acc mk nk of
                   None \<Rightarrow> \<lparr>displayName = trim (laundry_service_name cur), records = [cur]\<rparr>
                 | Some e \<Rightarrow> e\<lparr>records := records e @ [cur]\<rparr>)
      else group_at acc mk nk)"
proof (cases "mk = sortKey rt cur")
  case False
  then show ?thesis
    by (simp add: group_at_def step_result_def AList.update_conv')
next
  case True
  have at_key: "group_at (AList.update k m' acc) k nk = map_of (services m') nk" for k m'
    by (simp add: group_at_def AList.update_conv')
  have "group_at (step_result rt acc cur) (sortKey rt cur) nk =
      (if nk = normalizedServiceKey cur
       then Some ((service_before rt acc cur)\<lparr>records := records (service_before rt acc cur) @ [cur]\<rparr>)
       else group_at acc (sortKey rt cur) nk)"
    unfolding step_result_def at_key
    by (simp add: AList.update_conv' services_month_before)
  moreover have "(service_before rt acc cur)\<lparr>records := records (service_before rt acc cur) @ [cur]\<rparr> =
      (case group_at acc (sortKey rt cur) (normalizedServiceKey cur) of
         None \<Rightarrow> \<lparr>displayName = trim (laundry_service_name cur), records = [cur]\<rparr>
       | Some e \<Rightarrow> e\<lparr>records := records e @ [cur]\<rparr>)"
    by (simp add: service_before_def services_month_before split: option.splits)
  ultimately show ?thesis
    using True by simp
qed

lemma update_sum:
  fixes F :: "'v \<Rightarrow> 'a multiset"
  shows "(\<Sum>p\<leftarrow>AList.update k v al. F (snd p)) + (case map_of al k of None \<Rightarrow> {#} | Some old \<Rightarrow> F old) =
     (\<Sum>p\<leftarrow>al. F (snd p)) + F v"
  by (induction al) (auto simp: ac_simps)

lemma entry_records_step:
  "entry_records ((month_before rt acc cur)
          \<lparr>services :=
             AList.update (normalizedServiceKey cur)
               ((service_before rt acc cur)\<lparr>records := records (service_before rt acc cur) @ [cur]\<rparr>)
               (services (month_before rt acc cur))\<rparr>) =
   entry_records (month_before rt acc cur) + {#cur#}"
proof -
  let ?m = "month_before rt acc cur" and ?e = "service_before rt acc cur"
  let ?nk = "normalizedServiceKey cur"
  have "(\<Sum>p\<leftarrow>AList.update ?nk (?e\<lparr>records := records ?e @ [cur]\<rparr>) (services ?m). mset (records (snd p)))
        + (case map_of (services ?m) ?nk of None \<Rightarrow> {#} | Some old \<Rightarrow> mset (records old)) =
      (\<Sum>p\<leftarrow>services ?m. mset (records (snd p))) + mset (records (?e\<lparr>records := records ?e @ [cur]\<rparr>))"
    by (rule update_sum)
  moreover have "(case map_of (services ?m) ?nk of None \<Rightarrow> {#} | Some old \<Rightarrow> mset (records old)) = mset (records ?e)"
    by (simp add: service_before_def split: option.splits)
  ultimately show ?thesis
    by (simp add: entry_records_def)
qed

lemma grouped_records_step:
  "grouped_records (step_result rt acc cur) = grouped_records acc + {#cur#}"
proof -
  let ?m = "month_before rt acc cur"
  let ?m' = "?m\<lparr>services :=
             AList.update (normalizedServiceKey cur)
               ((service_before rt acc cur)\<lparr>records := records (service_before rt acc cur) @ [cur]\<rparr>)
               (services ?m)\<rparr>"
  have "(\<Sum>p\<leftarrow>AList.update (sortKey rt cur) ?m' acc. entry_records (snd p))
        + (case map_of acc (sortKey rt cur) of None \<Rightarrow> {#} | Some old \<Rightarrow> entry_records old) =
      (\<Sum>p\<leftarrow>acc. entry_records (snd p)) + entry_records ?m'"
    by (rule update_sum)
  moreover have "(case map_of acc (sortKey rt cur) of None \<Rightarrow> {#} | Some old \<Rightarrow> entry_records old) = entry_records ?m"
    by (simp add: month_before_def entry_records_def split: option.splits)
  ultimately show ?thesis
    by (simp add: grouped_records_def step_result_def entry_records_step)
qed

lemma keys_step_result:
  "fst ` set (step_result rt acc cur) = insert (sortKey rt cur) (fst ` set acc)"
  "distinct (map fst acc) \<Longrightarrow> distinct (map fst (step_result rt acc cur))"
  by (simp_all add: step_result_def AList.dom_update AList.distinct_update)

lemma groupedHistory_snoc:
  "groupedHistory rt (xs @ [x]) =
     (case groupedHistory rt xs of Inl e \<Rightarrow> Inl e | Inr a \<Rightarrow> group_step rt a x)"
  by (simp add: groupedHistory_def)

lemma groupedHistory_snoc_Inr:
  assumes "groupedHistory rt (xs @ [x]) = Inr g"
  obtains a where "groupedHistory rt xs = Inr a" and "\<not> step_throws rt a x" and "g = step_result rt a x"
  using assms
  by (auto simp: groupedHistory_snoc group_step_cases split: sum.splits if_splits)

lemma records_under_snoc:
  "records_under rt mk nk (xs @ [x]) =
     records_under rt mk nk xs @ (if sortKey rt x = mk \<and> normalizedServiceKey x = nk then [x] else [])"
  by (simp add: records_under_def)

lemma entry_of_snoc:
  "entry_of (rs @ [x]) =
     Some (case entry_of rs of
             None \<Rightarrow> \<lparr>displayName = trim (laundry_service_name x), records = [x]\<rparr>
           | Some e \<Rightarrow> e\<lparr>records := records e @ [x]\<rparr>)"
  by (cases rs) (simp_all add: entry_of_def)

lemma groupedHistory_invariant:
  "groupedHistory rt hist = Inr g \<Longrightarrow>
     (\<forall>mk nk. group_at g mk nk = entry_of (records_under rt mk nk hist))
     \<and> grouped_records g = mset hist
     \<and> distinct (map fst g)
     \<and> fst ` set g = sortKey rt ` set hist"
proof (induction hist arbitrary: g rule: rev_induct)
  case Nil
  then show ?case
    by (simp add: groupedHistory_def group_at_def entry_of_def records_under_def grouped_records_def)
next
  case (snoc x xs)
  from snoc.prems obtain a where a: "groupedHistory rt xs = Inr a" and g: "g = step_result rt a x"
    by (rule groupedHistory_snoc_Inr)
  from snoc.IH [OF a] have
    at: "\<And>mk nk. group_at a mk nk = entry_of (records_under rt mk nk xs)" and
    ms: "grouped_records a = mset xs" and
    di: "distinct (map fst a)" and
    ks: "fst ` set a = sortKey rt ` set xs"
    by simp_all
  have "group_at g mk nk = entry_of (records_under rt mk nk (xs @ [x]))" for mk nk
    unfolding g group_at_step_result records_under_snoc at
    by (simp add: entry_of_snoc)
  moreover have "grouped_records g = mset (xs @ [x])"
    by (simp add: g grouped_records_step ms)
  moreover have "distinct (map fst g)"
    using di by (simp add: g keys_step_result)
  moreover have "fst ` set g = sortKey rt ` set (xs @ [x])"
    by (simp add: g keys_step_result ks)
  ultimately show ?case by blast
qed

lemma dash_in_sortKey: "CHR ''-'' \<in> set (sortKey rt r)"
  by (simp add: sortKey_def)

lemma sortKey_not_inherited: "sortKey rt r \<notin> set object_prototype_names"
proof
  assume "sortKey rt r \<in> set object_prototype_names"
  moreover have "\<forall>n \<in> set object_prototype_names. CHR ''-'' \<notin> set n"
    by (simp add: object_prototype_names_def)
  ultimately show False
    using dash_in_sortKey [of rt r] by blast
qed

lemma groupedHistory_returns_iff:
  "(\<exists>g. groupedHistory rt hist = Inr g) \<longleftrightarrow>
     (\<forall>r \<in> set hist. normalizedServiceKey r \<notin> set object_prototype_names)"
proof (induction hist rule: rev_induct)
  case Nil
  show ?case by (simp add: groupedHistory_def)
next
  case (snoc x xs)
  show ?case
  proof
    assume "\<exists>g. groupedHistory rt (xs @ [x]) = Inr g"
    then obtain g where "groupedHistory rt (xs @ [x]) = Inr g" ..
    then obtain a where a: "groupedHistory rt xs = Inr a" and ok: "\<not> step_throws rt a x"
      by (rule groupedHistory_snoc_Inr)
    from a snoc.IH have old: "\<forall>r \<in> set xs. normalizedServiceKey r \<notin> set object_prototype_names"
      by blast
    have "normalizedServiceKey x \<notin> set object_prototype_names"
    proof
      assume inh: "normalizedServiceKey x \<in> set object_prototype_names"
      with ok have "group_at a (sortKey rt x) (normalizedServiceKey x) \<noteq> None"
        by (simp add: step_throws_def services_month_before)
      with groupedHistory_invariant [OF a]
      have "records_under rt (sortKey rt x) (normalizedServiceKey x) xs \<noteq> []"
        by (auto simp: entry_of_def)
      then obtain r where "r \<in> set xs" "normalizedServiceKey r = normalizedServiceKey x"
        by (auto simp: records_under_def filter_empty_conv)
      with old inh show False by auto
    qed
    with old show "\<forall>r \<in> set (xs @ [x]). normalizedServiceKey r \<notin> set object_prototype_names"
      by simp
  next
    assume all: "\<forall>r \<in> set (xs @ [x]). normalizedServiceKey r \<notin> set object_prototype_names"
    with snoc.IH obtain a where a: "groupedHistory rt xs = Inr a"
      by auto
    from all have "\<not> step_throws rt a x"
      by (simp add: step_throws_def sortKey_not_inherited)
    with a show "\<exists>g. groupedHistory rt (xs @ [x]) = Inr g"
      by (simp add: groupedHistory_snoc group_step_cases)
  qed
qed

subsection \<open>The rendered months\<close>

lemma mset_own_entries: "mset (own_entries obj) = mset obj"
proof -
  have "mset (own_entries obj) =
      filter_mset (\<lambda>e. array_index (fst e) \<noteq> None) (mset obj)
      + filter_mset (\<lambda>e. \<not> array_index (fst e) \<noteq> None) (mset obj)"
    by (simp add: own_entries_def)
  also have "\<dots> = mset obj"
    by (rule multiset_partition [symmetric])
  finally show ?thesis .
qed

lemma mset_object_keys: "mset (object_keys obj) = mset (map fst obj)"
  unfolding object_keys_def mset_map mset_own_entries ..

lemma mset_object_values: "mset (object_values obj) = mset (map snd obj)"
  unfolding object_values_def mset_map mset_own_entries ..

lemma mset_sortedMonthKeys: "mset (sortedMonthKeys g) = mset (map fst g)"
  by (simp add: sortedMonthKeys_def mset_object_keys)

lemma sortedMonthKeys_descending:
  assumes "distinct (map fst g)"
  shows "sorted_wrt (\<lambda>a b. b < a) (sortedMonthKeys g)"
proof -
  have "distinct (object_keys g)"
    using assms mset_object_keys [of g] by (metis mset_eq_imp_distinct_iff)
  then have "sorted_wrt (<) (sort (object_keys g))"
    by (simp add: strict_sorted_iff)
  then show ?thesis
    by (simp add: sortedMonthKeys_def sorted_wrt_rev)
qed

lemma map_result_entries:
  "\<forall>p \<in> set es. f (fst p) = Inr (h p) \<Longrightarrow> map_result f (map fst es) = Inr (map h es)"
  by (induction es) simp_all

lemma render_month_entry:
  "map_of g k = Some m \<Longrightarrow> render_month g k = Inr (render_entry (k, m))"
  by (simp add: render_month_def render_entry_def get_property_Some)

text \<open>The entries of a grouping in the order of the sorted month keys.\<close>

lemma sorted_entries:
  assumes "distinct (map fst g)"
  obtains es where "map fst es = sortedMonthKeys g" and "mset es = mset g"
    and "\<forall>p \<in> set es. map_of g (fst p) = Some (snd p)"
proof -
  let ?h = "\<lambda>k. (k, the (map_of g k))"
  let ?es = "map ?h (sortedMonthKeys g)"
  have own: "?h (fst p) = p" if "p \<in> set g" for p
  proof (cases p)
    case (Pair k m)
    with that assms have "map_of g k = Some m" by simp
    with Pair show ?thesis by simp
  qed
  have "mset ?es = image_mset ?h (mset (map fst g))"
    by (simp add: mset_sortedMonthKeys)
  also have "\<dots> = mset (map (\<lambda>p. ?h (fst p)) g)"
    by (simp add: multiset.map_comp comp_def)
  also have "map (\<lambda>p. ?h (fst p)) g = g"
    using own by (intro map_idI)
  finally have perm: "mset ?es = mset g" .
  have keys: "map fst ?es = sortedMonthKeys g"
    by (simp add: comp_def)
  have "\<forall>p \<in> set ?es. map_of g (fst p) = Some (snd p)"
  proof
    fix p assume "p \<in> set ?es"
    with perm have "p \<in> set g" by (metis mset_eq_setD)
    then have "?h (fst p) = p" by (rule own)
    moreover from \<open>p \<in> set g\<close> assms have "map_of g (fst p) \<noteq> None"
      by (metis image_eqI map_of_eq_None_iff)
    ultimately show "map_of g (fst p) = Some (snd p)"
      by (metis option.collapse prod.collapse prod.inject)
  qed
  with keys perm show thesis by (rule that)
qed

lemma savedBatches_entries:
  assumes "groupedHistory rt hist = Inr g"
  obtains es where "savedBatches rt hist = Inr (map render_entry es)"
    and "map fst es = sortedMonthKeys g" and "mset es = mset g"
proof -
  from groupedHistory_invariant [OF assms] have di: "distinct (map fst g)" by simp
  from di obtain es where keys: "map fst es = sortedMonthKeys g" and perm: "mset es = mset g"
    and own: "\<forall>p \<in> set es. map_of g (fst p) = Some (snd p)"
    by (rule sorted_entries)
  from own have "\<forall>p \<in> set es. render_month g (fst p) = Inr (render_entry p)"
    by (auto simp: render_month_entry)
  then have "map_result (render_month g) (map fst es) = Inr (map render_entry es)"
    by (rule map_result_entries)
  then have "savedBatches rt hist = Inr (map render_entry es)"
    by (simp add: savedBatches_def assms keys)
  then show thesis using keys perm by (rule that)
qed

lemma month_records_render_entry: "month_records (render_entry p) = entry_records (snd p)"
proof -
  have "month_records (render_entry p) = (\<Sum>e\<leftarrow>object_values (services (snd p)). mset (records e))"
    by (simp add: month_records_def render_entry_def render_service_def comp_def)
  also have "\<dots> = sum_mset (image_mset (\<lambda>e. mset (records e)) (mset (object_values (services (snd p)))))"
    by (simp add: sum_mset_sum_list [symmetric])
  also have "\<dots> = sum_mset (image_mset (\<lambda>e. mset (records e)) (mset (map snd (services (snd p)))))"
    by (simp only: mset_object_values)
  also have "\<dots> = entry_records (snd p)"
    by (simp add: entry_records_def sum_mset_sum_list [symmetric] multiset.map_comp comp_def)
  finally show ?thesis .
qed

lemma mset_all_records: "mset (all_records v) = (\<Sum>m\<leftarrow>v. month_records m)"
  by (induction v) (simp_all add: all_records_def month_records_def mset_concat comp_def)

lemma savedBatches_correct:
  assumes "groupedHistory rt hist = Inr g"
  obtains v where "savedBatches rt hist = Inr v"
    and "map sort_key_of v = sortedMonthKeys g"
    and "sorted_wrt (\<lambda>a b. b < a) (map sort_key_of v)"
    and "mset (all_records v) = mset hist"
proof -
  from assms obtain es where v: "savedBatches rt hist = Inr (map render_entry es)"
    and keys: "map fst es = sortedMonthKeys g" and perm: "mset es = mset g"
    by (rule savedBatches_entries)
  from groupedHistory_invariant [OF assms] have di: "distinct (map fst g)"
    and all: "grouped_records g = mset hist" by simp_all
  have k: "map sort_key_of (map render_entry es) = sortedMonthKeys g"
    using keys by (simp add: comp_def render_entry_def)
  have "mset (all_records (map render_entry es)) = (\<Sum>p\<leftarrow>es. entry_records (snd p))"
    by (simp add: mset_all_records comp_def month_records_render_entry)
  also have "\<dots> = sum_mset (image_mset (\<lambda>p. entry_records (snd p)) (mset es))"
    by (simp add: sum_mset_sum_list [symmetric])
  also have "\<dots> = grouped_records g"
    by (simp add: perm grouped_records_def sum_mset_sum_list [symmetric])
  finally have "mset (all_records (map render_entry es)) = mset hist"
    using all by simp
  with v k sortedMonthKeys_descending [OF di] show thesis
    by (intro that [of "map render_entry es"]) simp_all
qed

subsection \<open>The sample ledgers, evaluated\<close>

lemma sample_sortKeys:
  "sortKey utc_runtime acme_feb = ''2024-02''"
  "sortKey utc_runtime acme_jan2 = ''2024-01''"
  "sortKey utc_runtime acme_jan1 = ''2024-01''"
  "sortKey utc_runtime padded_jan2 = ''2024-01''"
  "sortKey utc_runtime unclear_jan3 = ''2024-01''"
  "sortKey utc_runtime unpriced_jan2 = ''2024-01''"
  "sortKey utc_runtime constructor_feb = ''2024-02''"
  by code_simp+

lemma sample_serviceKeys:
  "normalizedServiceKey acme_feb = ''acme''"
  "normalizedServiceKey acme_jan2 = ''acme''"
  "normalizedServiceKey acme_jan1 = ''acme''"
  "normalizedServiceKey padded_jan2 = ''acme''"
  "normalizedServiceKey unclear_jan3 = ''acme''"
  "normalizedServiceKey unpriced_jan2 = ''acme''"
  "normalizedServiceKey constructor_feb = ''constructor''"
  by code_simp+

lemma sample_names:
  "trim (laundry_service_name acme_feb) = ''Acme''"
  "trim (laundry_service_name acme_jan2) = ''Acme''"
  "trim (laundry_service_name acme_jan1) = ''Acme''"
  "trim (laundry_service_name padded_jan2) = ''acme''"
  "trim (laundry_service_name unclear_jan3) = ''Acme''"
  "trim (laundry_service_name unpriced_jan2) = ''Acme''"
  by code_simp+

lemma sample_indices:
  "array_index ''2024-02'' = None"
  "array_index ''2024-01'' = None"
  "array_index ''acme'' = None"
  by code_simp+

lemma sample_contributions:
  "or_zero (Number_of (laundry_weight_kg acme_feb)) = Fin 5"
  "or_zero (Number_of (laundry_weight_kg acme_jan2)) = Fin 4"
  "or_zero (Number_of (laundry_weight_kg acme_jan1)) = Fin 3"
  "or_zero (Number_of (laundry_weight_kg padded_jan2)) = Fin 4"
  "or_zero (Number_of (laundry_weight_kg unclear_jan3)) = Fin 0"
  "or_zero (Number_of (laundry_weight_kg unpriced_jan2)) = Fin 4"
  "price_or_zero (price acme_feb) = Fin 10"
  "price_or_zero (price acme_jan2) = Fin 8"
  "price_or_zero (price acme_jan1) = Fin 6"
  "price_or_zero (price padded_jan2) = Fin 8"
  "price_or_zero (price unclear_jan3) = Fin 2"
  "price_or_zero (price unpriced_jan2) = Fin 0"
  by code_simp+

lemmas sample_steps =
  groupedHistory_def group_step_cases step_throws_def step_result_def month_before_def
  service_before_def sample_sortKeys sample_serviceKeys sample_names object_prototype_names_def

lemmas sample_rendering =
  savedBatches_def sortedMonthKeys_def object_keys_def object_values_def own_entries_def
  sample_indices render_month_def get_property_def render_service_def totalWeight_def
  totalPrice_def sample_contributions

lemma acme_grouped:
  "groupedHistory utc_runtime acme_ledger =
     Inr [(''2024-02'', \<lparr>label = toLocaleMonthYear utc_runtime (timestamp acme_feb),
                         services = [(''acme'', \<lparr>displayName = ''Acme'', records = [acme_feb]\<rparr>)]\<rparr>),
          (''2024-01'', \<lparr>label = toLocaleMonthYear utc_runtime (timestamp acme_jan2),
                         services = [(''acme'', \<lparr>displayName = ''Acme'', records = [acme_jan2, acme_jan1]\<rparr>)]\<rparr>)]"
  by (simp add: acme_ledger_def sample_steps)


lemma constructor_throws: "savedBatches utc_runtime constructor_ledger = Inl TypeError"
  by (simp add: savedBatches_def constructor_ledger_def acme_ledger_def sample_steps)

subsection \<open>Totals\<close>








lemma sample_labels:
  "toLocaleMonthYear utc_runtime (timestamp acme_feb) = ''February 2024''"
  "toLocaleMonthYear utc_runtime (timestamp acme_jan2) = ''January 2024''"
  "toLocaleMonthYear utc_runtime (timestamp padded_jan2) = ''January 2024''"
  "toLocaleMonthYear utc_runtime (timestamp unclear_jan3) = ''January 2024''"
  by code_simp+

lemma acme_rendered: "savedBatches utc_runtime acme_ledger = Inr acme_view"
  by (simp add: acme_grouped sample_rendering sample_labels acme_view_def)


lemma padded_rendered: "savedBatches utc_runtime padded_first_ledger = Inr padded_view"
proof -
  have "groupedHistory utc_runtime padded_first_ledger =
     Inr [(''2024-01'', \<lparr>label = toLocaleMonthYear utc_runtime (timestamp padded_jan2),
            services = [(''acme'', \<lparr>displayName = ''acme'', records = [padded_jan2, acme_jan1]\<rparr>)]\<rparr>)]"
    by (simp add: padded_first_ledger_def sample_steps)
  then show ?thesis
    by (simp add: sample_rendering sample_labels padded_view_def padded_group_def)
qed

lemma sample_fields:
  "laundry_weight_kg unclear_jan3 = WStr DATA_UNCLEAR" "price unclear_jan3 = Some (Fin 2)"
  "laundry_weight_kg unpriced_jan2 = WNum (Fin 4)" "price unpriced_jan2 = None"
  "laundry_weight_kg acme_jan1 = WNum (Fin 3)" "price acme_jan1 = Some (Fin 6)"
  "laundry_service_name padded_jan2 = ''  acme ''" "laundry_service_name acme_jan1 = ''Acme''"
  by (simp_all add: unclear_jan3_def unpriced_jan2_def acme_jan1_def padded_jan2_def sample_order_def)


subsection \<open>Service groups\<close>

lemma set_object_values: "set (object_values obj) = snd ` set obj"
  using mset_object_values [of obj] by (metis mset_eq_setD set_map)

lemma entry_of_Some:
  "rs \<noteq> [] \<Longrightarrow> entry_of rs = Some \<lparr>displayName = trim (laundry_service_name (hd rs)), records = rs\<rparr>"
  by (cases rs) (simp_all add: entry_of_def)

lemma group_in_view:
  assumes v: "savedBatches rt hist = Inr v" and a: "a \<in> set hist"
  obtains m sg where "m \<in> set v" and "sg \<in> set (service_groups m)"
    and "sort_key_of m = sortKey rt a"
    and "group_records sg = records_under rt (sortKey rt a) (normalizedServiceKey a) hist"
    and "display_name sg = trim (laundry_service_name (hd (group_records sg)))"
proof -
  let ?mk = "sortKey rt a" and ?nk = "normalizedServiceKey a"
  let ?rs = "records_under rt ?mk ?nk hist"
  from v obtain g where g: "groupedHistory rt hist = Inr g"
    by (auto simp: savedBatches_def split: sum.splits)
  from a have ne: "?rs \<noteq> []"
    by (auto simp: records_under_def filter_empty_conv)
  from groupedHistory_invariant [OF g] ne
  have at: "group_at g ?mk ?nk = Some \<lparr>displayName = trim (laundry_service_name (hd ?rs)), records = ?rs\<rparr>"
    by (simp add: entry_of_Some)
  then obtain me where me: "map_of g ?mk = Some me"
    and e: "map_of (services me) ?nk = Some \<lparr>displayName = trim (laundry_service_name (hd ?rs)), records = ?rs\<rparr>"
    by (auto simp: group_at_def split: option.splits)
  from g obtain es where es: "savedBatches rt hist = Inr (map render_entry es)" and perm: "mset es = mset g"
    by (rule savedBatches_entries)
  from me have "(?mk, me) \<in> set g" by (rule map_of_SomeD)
  with perm have "(?mk, me) \<in> set es" by (metis mset_eq_setD)
  with es v have m: "render_entry (?mk, me) \<in> set v" by auto
  from e have "(?nk, \<lparr>displayName = trim (laundry_service_name (hd ?rs)), records = ?rs\<rparr>) \<in> set (services me)"
    by (rule map_of_SomeD)
  then have "\<lparr>displayName = trim (laundry_service_name (hd ?rs)), records = ?rs\<rparr> \<in> set (object_values (services me))"
    by (force simp: set_object_values)
  then have sg: "render_service \<lparr>displayName = trim (laundry_service_name (hd ?rs)), records = ?rs\<rparr>
      \<in> set (service_groups (render_entry (?mk, me)))"
    by (simp add: render_entry_def)
  show thesis
    by (rule that [OF m sg]) (simp_all add: render_entry_def render_service_def)
qed

lemma acme_keys: "toLowerCase (trim ''Acme'') = ''acme''" "toLowerCase (trim ''  acme '') = ''acme''"
  by code_simp+

text \<open>
  Claim C3, as stated, fails when the record met first carries surrounding white space:
  the group of \<^verbatim>\<open>"  acme "\<close> (met first) and \<^verbatim>\<open>"Acme"\<close> is shown as \<^verbatim>\<open>acme\<close>, which is
  not the name of the record met first.
\<close>

theorem display_name_is_not_the_raw_name:
  "savedBatches utc_runtime padded_first_ledger = Inr padded_view
   \<and> laundry_service_name (hd padded_first_ledger) = ''  acme ''
   \<and> map display_name (concat (map service_groups padded_view)) = [''acme'']
   \<and> display_names (savedBatches utc_runtime padded_first_ledger)
       \<noteq> [laundry_service_name (hd padded_first_ledger)]"
proof -
  have first: "laundry_service_name (hd padded_first_ledger) = ''  acme ''"
    by (simp add: padded_first_ledger_def sample_fields)
  have shown: "map display_name (concat (map service_groups padded_view)) = [''acme'']"
    by (simp add: padded_view_def padded_group_def)
  then have "display_names (savedBatches utc_runtime padded_first_ledger) = [''acme'']"
    by (simp add: padded_rendered display_names_def)
  then have "display_names (savedBatches utc_runtime padded_first_ledger)
      \<noteq> [laundry_service_name (hd padded_first_ledger)]"
    by (simp add: first)
  with padded_rendered first shown show ?thesis
    by blast
qed

text \<open>
  Claim C3, amended. Two records of one month whose service names agree after trimming
  and lower-casing are in the same service group of that month; the group holds exactly
  the ledger's records of that month and service key, in ledger order, and its display
  name is the trimmed name of its first record, the one met first. The names
  \<^verbatim>\<open>"Acme"\<close> and \<^verbatim>\<open>"  acme "\<close> have the same service key.
\<close>

theorem same_key_same_group:
  "(savedBatches rt hist = Inr v \<and> a \<in> set hist \<and> b \<in> set hist
      \<and> sortKey rt a = sortKey rt b \<and> normalizedServiceKey a = normalizedServiceKey b \<longrightarrow>
      (\<exists>m \<in> set v. \<exists>sg \<in> set (service_groups m).
          sort_key_of m = sortKey rt a
          \<and> group_records sg = records_under rt (sortKey rt a) (normalizedServiceKey a) hist
          \<and> a \<in> set (group_records sg) \<and> b \<in> set (group_records sg)
          \<and> display_name sg = trim (laundry_service_name (hd (group_records sg)))))
   \<and> (laundry_service_name a = ''Acme'' \<and> laundry_service_name b = ''  acme '' \<longrightarrow>
        normalizedServiceKey a = normalizedServiceKey b)"
proof -
  have one: "\<exists>m \<in> set v. \<exists>sg \<in> set (service_groups m).
          sort_key_of m = sortKey rt a
          \<and> group_records sg = records_under rt (sortKey rt a) (normalizedServiceKey a) hist
          \<and> a \<in> set (group_records sg) \<and> b \<in> set (group_records sg)
          \<and> display_name sg = trim (laundry_service_name (hd (group_records sg)))"
    if v: "savedBatches rt hist = Inr v" and a: "a \<in> set hist" and b: "b \<in> set hist"
      and mk: "sortKey rt a = sortKey rt b" and nk: "normalizedServiceKey a = normalizedServiceKey b"
  proof -
    from v a obtain m sg where m: "m \<in> set v" and sg: "sg \<in> set (service_groups m)"
      and k: "sort_key_of m = sortKey rt a"
      and rs: "group_records sg = records_under rt (sortKey rt a) (normalizedServiceKey a) hist"
      and dn: "display_name sg = trim (laundry_service_name (hd (group_records sg)))"
      by (rule group_in_view)
    from a b mk nk have "a \<in> set (group_records sg)" "b \<in> set (group_records sg)"
      by (simp_all add: rs records_under_def)
    with m sg k rs dn show ?thesis by blast
  qed
  have two: "normalizedServiceKey a = normalizedServiceKey b"
    if "laundry_service_name a = ''Acme''" "laundry_service_name b = ''  acme ''"
    using that by (simp add: normalizedServiceKey_def acme_keys)
  from one two show ?thesis by blast
qed

theorem same_key_same_group_witness:
  "savedBatches utc_runtime padded_first_ledger = Inr padded_view
   \<and> padded_jan2 \<in> set padded_first_ledger \<and> acme_jan1 \<in> set padded_first_ledger
   \<and> laundry_service_name padded_jan2 = ''  acme '' \<and> laundry_service_name acme_jan1 = ''Acme''
   \<and> sortKey utc_runtime acme_jan1 = sortKey utc_runtime padded_jan2
   \<and> normalizedServiceKey acme_jan1 = normalizedServiceKey padded_jan2
   \<and> (\<exists>sg. sg \<in> set (service_groups (hd padded_view))
         \<and> padded_jan2 \<in> set (group_records sg) \<and> acme_jan1 \<in> set (group_records sg)
         \<and> hd (group_records sg) = padded_jan2
         \<and> display_name sg = ''acme'')"
proof -
  have in_ledger: "padded_jan2 \<in> set padded_first_ledger" "acme_jan1 \<in> set padded_first_ledger"
    by (simp_all add: padded_first_ledger_def)
  have keys: "sortKey utc_runtime acme_jan1 = sortKey utc_runtime padded_jan2"
    "normalizedServiceKey acme_jan1 = normalizedServiceKey padded_jan2"
    by (simp_all add: sample_sortKeys sample_serviceKeys)
  have under: "records_under utc_runtime (sortKey utc_runtime acme_jan1) (normalizedServiceKey acme_jan1)
      padded_first_ledger = [padded_jan2, acme_jan1]"
    by (simp add: records_under_def padded_first_ledger_def sample_sortKeys sample_serviceKeys)
  from same_key_same_group [of utc_runtime padded_first_ledger padded_view acme_jan1 padded_jan2]
    padded_rendered in_ledger keys
  obtain m sg where "m \<in> set padded_view" and "sg \<in> set (service_groups m)"
    and "group_records sg = records_under utc_runtime (sortKey utc_runtime acme_jan1)
          (normalizedServiceKey acme_jan1) padded_first_ledger"
    and "display_name sg = trim (laundry_service_name (hd (group_records sg)))"
    by blast
  with under have "sg \<in> set (service_groups (hd padded_view))
      \<and> padded_jan2 \<in> set (group_records sg) \<and> acme_jan1 \<in> set (group_records sg)
      \<and> hd (group_records sg) = padded_jan2 \<and> display_name sg = ''acme''"
    by (simp add: padded_view_def sample_names)
  then have "\<exists>sg. sg \<in> set (service_groups (hd padded_view))
         \<and> padded_jan2 \<in> set (group_records sg) \<and> acme_jan1 \<in> set (group_records sg)
         \<and> hd (group_records sg) = padded_jan2
         \<and> display_name sg = ''acme''" ..
  with padded_rendered in_ledger keys sample_fields(7,8) show ?thesis
    by blast
qed

subsection \<open>When the aggregation throws\<close>

lemma groupedHistory_error: "groupedHistory rt hist = Inl e \<Longrightarrow> e = TypeError"
proof (induction hist arbitrary: e rule: rev_induct)
  case Nil
  then show ?case by (simp add: groupedHistory_def)
next
  case (snoc x xs)
  then show ?case
    by (auto simp: groupedHistory_snoc group_step_cases split: sum.splits if_splits)
qed

lemma savedBatches_throws_iff:
  "savedBatches rt hist = Inl TypeError \<longleftrightarrow>
     (\<exists>r \<in> set hist. normalizedServiceKey r \<in> set object_prototype_names)"
proof
  assume "savedBatches rt hist = Inl TypeError"
  then have "\<not> (\<exists>g. groupedHistory rt hist = Inr g)"
    by (auto elim!: savedBatches_correct)
  then show "\<exists>r \<in> set hist. normalizedServiceKey r \<in> set object_prototype_names"
    by (simp add: groupedHistory_returns_iff)
next
  assume "\<exists>r \<in> set hist. normalizedServiceKey r \<in> set object_prototype_names"
  then have "\<not> (\<exists>g. groupedHistory rt hist = Inr g)"
    by (simp add: groupedHistory_returns_iff)
  then obtain e where "groupedHistory rt hist = Inl e"
    by (cases "groupedHistory rt hist") auto
  moreover from this have "e = TypeError" by (rule groupedHistory_error)
  ultimately show "savedBatches rt hist = Inl TypeError"
    by (simp add: savedBatches_def)
qed

subsection \<open>Sort keys and the calendar\<close>

lemma digit_char_less: "d < 10 \<Longrightarrow> e < 10 \<Longrightarrow> digit_char d < digit_char e \<longleftrightarrow> d < e"
  by (simp add: digit_char_def less_char_def)

lemma digit_char_eq: "d < 10 \<Longrightarrow> e < 10 \<Longrightarrow> digit_char d = digit_char e \<longleftrightarrow> d = e"
proof -
  assume "d < 10" "e < 10"
  then have "(of_char (digit_char d) :: nat) = 48 + d" "(of_char (digit_char e) :: nat) = 48 + e"
    by (simp_all add: digit_char_def)
  then show ?thesis by (metis add_left_cancel)
qed

lemma string_of_nat_1: "n < 10 \<Longrightarrow> string_of_nat n = [digit_char n]"
  by (subst string_of_nat.simps) simp

lemma string_of_nat_2:
  assumes "10 \<le> n" and "n < 100"
  shows "string_of_nat n = [digit_char (n div 10), digit_char (n mod 10)]"
proof -
  from assms have "n div 10 < 10" by simp
  with assms show ?thesis
    by (subst string_of_nat.simps) (simp add: string_of_nat_1)
qed

lemma string_of_nat_3:
  assumes "100 \<le> n" and "n < 1000"
  shows "string_of_nat n = [digit_char (n div 100), digit_char (n div 10 mod 10), digit_char (n mod 10)]"
proof -
  from assms have "10 \<le> n div 10" "n div 10 < 100" by simp_all
  then have "string_of_nat (n div 10) = [digit_char (n div 10 div 10), digit_char (n div 10 mod 10)]"
    by (rule string_of_nat_2)
  moreover have "n div 10 div 10 = n div 100"
    by (simp add: div_mult2_eq [symmetric])
  ultimately show ?thesis
    using assms by (subst string_of_nat.simps) simp
qed

lemma string_of_nat_4:
  assumes "1000 \<le> n" and "n < 10000"
  shows "string_of_nat n =
    [digit_char (n div 1000), digit_char (n div 100 mod 10), digit_char (n div 10 mod 10), digit_char (n mod 10)]"
proof -
  from assms have "100 \<le> n div 10" "n div 10 < 1000" by simp_all
  then have "string_of_nat (n div 10) =
      [digit_char (n div 10 div 100), digit_char (n div 10 div 10 mod 10), digit_char (n div 10 mod 10)]"
    by (rule string_of_nat_3)
  moreover have "n div 10 div 100 = n div 1000" "n div 10 div 10 = n div 100"
    by (simp_all add: div_mult2_eq [symmetric])
  ultimately show ?thesis
    using assms by (subst string_of_nat.simps) simp
qed

lemma sortKey_digits:
  assumes "1000 \<le> getFullYear rt (timestamp r)" and "getFullYear rt (timestamp r) \<le> 9999"
    and "getMonth rt (timestamp r) < 12"
  shows "sortKey rt r =
    [digit_char (nat (getFullYear rt (timestamp r)) div 1000),
     digit_char (nat (getFullYear rt (timestamp r)) div 100 mod 10),
     digit_char (nat (getFullYear rt (timestamp r)) div 10 mod 10),
     digit_char (nat (getFullYear rt (timestamp r)) mod 10),
     CHR ''-'',
     digit_char ((getMonth rt (timestamp r) + 1) div 10),
     digit_char ((getMonth rt (timestamp r) + 1) mod 10)]"
proof -
  let ?y = "getFullYear rt (timestamp r)" and ?m = "getMonth rt (timestamp r) + 1"
  from assms have "1000 \<le> nat ?y" "nat ?y < 10000" by simp_all
  then have "string_of_nat (nat ?y) =
      [digit_char (nat ?y div 1000), digit_char (nat ?y div 100 mod 10),
       digit_char (nat ?y div 10 mod 10), digit_char (nat ?y mod 10)]"
    by (rule string_of_nat_4)
  with assms(1) have year: "string_of_int ?y =
      [digit_char (nat ?y div 1000), digit_char (nat ?y div 100 mod 10),
       digit_char (nat ?y div 10 mod 10), digit_char (nat ?y mod 10)]"
    by (simp add: string_of_int_def)
  have zero: "CHR ''0'' = digit_char 0"
    by code_simp
  have month: "padStart 2 (CHR ''0'') (string_of_nat ?m) = [digit_char (?m div 10), digit_char (?m mod 10)]"
  proof (cases "?m < 10")
    case True
    then have "string_of_nat ?m = [digit_char ?m]" by (rule string_of_nat_1)
    moreover from True have "?m div 10 = 0" "?m mod 10 = ?m" by simp_all
    ultimately show ?thesis
      by (simp only: padStart_def zero) simp
  next
    case False
    with assms(3) have "10 \<le> ?m" "?m < 100" by simp_all
    then have "string_of_nat ?m = [digit_char (?m div 10), digit_char (?m mod 10)]"
      by (rule string_of_nat_2)
    then show ?thesis
      by (simp only: padStart_def) simp
  qed
  show ?thesis
    unfolding sortKey_def year month by simp
qed

lemma high_part_less:
  fixes x y rx ry B :: nat
  assumes "rx < B" and "ry < B"
  shows "(x < y \<or> x = y \<and> rx < ry) \<longleftrightarrow> B * x + rx < B * y + ry"
proof (cases x y rule: linorder_cases)
  case less
  then have "B * Suc x \<le> B * y" by (intro mult_le_mono2) simp
  with assms less show ?thesis by simp
next
  case equal
  then show ?thesis by simp
next
  case greater
  then have "B * Suc y \<le> B * x" by (intro mult_le_mono2) simp
  with assms greater show ?thesis by simp
qed

lemma high_part_eq:
  fixes x y rx ry B :: nat
  assumes "rx < B" and "ry < B"
  shows "(x = y \<and> rx = ry) \<longleftrightarrow> B * x + rx = B * y + ry"
  using high_part_less [OF assms, of x y] high_part_less [OF assms(2,1), of y x]
  by (cases x y rule: linorder_cases) auto

lemma digit_rows_less:
  assumes a: "a2 < 10" "a1 < 10" "a0 < 10" "p1 < 10" "p0 < 10" and a3: "a3 < 10"
    and b: "b2 < 10" "b1 < 10" "b0 < 10" "q1 < 10" "q0 < 10" and b3: "b3 < 10"
  shows "[digit_char a3, digit_char a2, digit_char a1, digit_char a0, CHR ''-'', digit_char p1, digit_char p0]
       < [digit_char b3, digit_char b2, digit_char b1, digit_char b0, CHR ''-'', digit_char q1, digit_char q0]
     \<longleftrightarrow> (1000 * a3 + (100 * a2 + (10 * a1 + a0)) < 1000 * b3 + (100 * b2 + (10 * b1 + b0))
          \<or> (1000 * a3 + (100 * a2 + (10 * a1 + a0)) = 1000 * b3 + (100 * b2 + (10 * b1 + b0))
              \<and> 10 * p1 + p0 < 10 * q1 + q0))"
proof -
  let ?YL = "a3 < b3 \<or> a3 = b3 \<and> (a2 < b2 \<or> a2 = b2 \<and> (a1 < b1 \<or> a1 = b1 \<and> a0 < b0))"
  let ?YE = "a3 = b3 \<and> (a2 = b2 \<and> (a1 = b1 \<and> a0 = b0))"
  let ?M = "p1 < q1 \<or> p1 = q1 \<and> p0 < q0"
  from a b have two: "10 * a1 + a0 < 100" "10 * b1 + b0 < 100" by simp_all
  from a b have three: "100 * a2 + (10 * a1 + a0) < 1000" "100 * b2 + (10 * b1 + b0) < 1000" by simp_all
  have l1: "(a1 < b1 \<or> a1 = b1 \<and> a0 < b0) \<longleftrightarrow> 10 * a1 + a0 < 10 * b1 + b0"
    using a(3) b(3) by (rule high_part_less)
  have l2: "(a2 < b2 \<or> a2 = b2 \<and> 10 * a1 + a0 < 10 * b1 + b0) \<longleftrightarrow>
      100 * a2 + (10 * a1 + a0) < 100 * b2 + (10 * b1 + b0)"
    using two by (rule high_part_less)
  have l3: "(a3 < b3 \<or> a3 = b3 \<and> 100 * a2 + (10 * a1 + a0) < 100 * b2 + (10 * b1 + b0)) \<longleftrightarrow>
      1000 * a3 + (100 * a2 + (10 * a1 + a0)) < 1000 * b3 + (100 * b2 + (10 * b1 + b0))"
    using three by (rule high_part_less)
  have e1: "(a1 = b1 \<and> a0 = b0) \<longleftrightarrow> 10 * a1 + a0 = 10 * b1 + b0"
    using a(3) b(3) by (rule high_part_eq)
  have e2: "(a2 = b2 \<and> 10 * a1 + a0 = 10 * b1 + b0) \<longleftrightarrow>
      100 * a2 + (10 * a1 + a0) = 100 * b2 + (10 * b1 + b0)"
    using two by (rule high_part_eq)
  have e3: "(a3 = b3 \<and> 100 * a2 + (10 * a1 + a0) = 100 * b2 + (10 * b1 + b0)) \<longleftrightarrow>
      1000 * a3 + (100 * a2 + (10 * a1 + a0)) = 1000 * b3 + (100 * b2 + (10 * b1 + b0))"
    using three by (rule high_part_eq)
  have m: "?M \<longleftrightarrow> 10 * p1 + p0 < 10 * q1 + q0"
    using a(5) b(5) by (rule high_part_less)
  have "[digit_char a3, digit_char a2, digit_char a1, digit_char a0, CHR ''-'', digit_char p1, digit_char p0]
       < [digit_char b3, digit_char b2, digit_char b1, digit_char b0, CHR ''-'', digit_char q1, digit_char q0]
     \<longleftrightarrow> (a3 < b3 \<or> a3 = b3 \<and> (a2 < b2 \<or> a2 = b2 \<and> (a1 < b1 \<or> a1 = b1 \<and> (a0 < b0 \<or> a0 = b0 \<and> ?M))))"
    using a a3 b b3 by (simp add: digit_char_less digit_char_eq)
  also have "\<dots> \<longleftrightarrow> ?YL \<or> ?YE \<and> ?M"
    by blast
  finally show ?thesis
    unfolding l1 l2 l3 e1 e2 e3 m .
qed

lemma four_digits:
  "1000 * (n div 1000) + (100 * (n div 100 mod 10) + (10 * (n div 10 mod 10) + n mod 10)) = (n :: nat)"
proof -
  define k j i r0 r1 r2 where "k = n div 10" and "j = k div 10" and "i = j div 10"
    and "r0 = n mod 10" and "r1 = k mod 10" and "r2 = j mod 10"
  have digits: "n div 1000 = i" "n div 100 mod 10 = r2" "n div 10 mod 10 = r1" "n mod 10 = r0"
    by (simp_all add: k_def j_def i_def r0_def r1_def r2_def div_mult2_eq [symmetric])
  have "n = 10 * k + r0" "k = 10 * j + r1" "j = 10 * i + r2"
    by (simp_all add: k_def j_def i_def r0_def r1_def r2_def)
  then have "1000 * i + (100 * r2 + (10 * r1 + r0)) = n"
    by linarith
  then show ?thesis
    unfolding digits .
qed

lemma two_digits: "10 * (m div 10) + m mod 10 = (m :: nat)"
  by simp

lemma sortKey_chronological:
  assumes "1000 \<le> getFullYear rt (timestamp a)" and "getFullYear rt (timestamp a) \<le> 9999"
    and "getMonth rt (timestamp a) < 12"
    and "1000 \<le> getFullYear rt (timestamp b)" and "getFullYear rt (timestamp b) \<le> 9999"
    and "getMonth rt (timestamp b) < 12"
  shows "sortKey rt a < sortKey rt b \<longleftrightarrow>
     getFullYear rt (timestamp a) < getFullYear rt (timestamp b)
     \<or> (getFullYear rt (timestamp a) = getFullYear rt (timestamp b)
         \<and> getMonth rt (timestamp a) < getMonth rt (timestamp b))"
proof -
  let ?ya = "nat (getFullYear rt (timestamp a))" and ?yb = "nat (getFullYear rt (timestamp b))"
  let ?ma = "getMonth rt (timestamp a) + 1" and ?mb = "getMonth rt (timestamp b) + 1"
  from assms have bounds: "?ya div 1000 < 10" "?yb div 1000 < 10" by simp_all
  have "sortKey rt a < sortKey rt b \<longleftrightarrow>
      (1000 * (?ya div 1000) + (100 * (?ya div 100 mod 10) + (10 * (?ya div 10 mod 10) + ?ya mod 10))
         < 1000 * (?yb div 1000) + (100 * (?yb div 100 mod 10) + (10 * (?yb div 10 mod 10) + ?yb mod 10))
       \<or> (1000 * (?ya div 1000) + (100 * (?ya div 100 mod 10) + (10 * (?ya div 10 mod 10) + ?ya mod 10))
         = 1000 * (?yb div 1000) + (100 * (?yb div 100 mod 10) + (10 * (?yb div 10 mod 10) + ?yb mod 10))
          \<and> 10 * (?ma div 10) + ?ma mod 10 < 10 * (?mb div 10) + ?mb mod 10))"
    unfolding sortKey_digits [OF assms(1-3)] sortKey_digits [OF assms(4-6)]
    using bounds assms(3,6) by (intro digit_rows_less) simp_all
  also have "\<dots> \<longleftrightarrow> ?ya < ?yb \<or> (?ya = ?yb \<and> ?ma < ?mb)"
    unfolding four_digits two_digits ..
  also have "\<dots> \<longleftrightarrow> getFullYear rt (timestamp a) < getFullYear rt (timestamp b)
     \<or> (getFullYear rt (timestamp a) = getFullYear rt (timestamp b)
         \<and> getMonth rt (timestamp a) < getMonth rt (timestamp b))"
    using assms(1,4) by auto
  finally show ?thesis .
qed

subsection \<open>The aggregation as a whole\<close>

text \<open>
  Claim C1. The aggregation does not handle every ledger: it throws a \<^verbatim>\<open>TypeError\<close>
  exactly when some record's service name, trimmed and lower-cased, is a property name
  every plain object inherits (\<^verbatim>\<open>constructor\<close>, \<^verbatim>\<open>__proto__\<close>). For every other ledger it
  returns month buckets whose sort keys are strictly descending and whose records, over
  all service groups of all months, are the ledger's as a multiset, each record in the
  bucket of its own sort key. Between records with four-digit years the order of the sort
  keys is the order of year and month, so that the most recent month comes first.
\<close>

theorem aggregation_throws_on_inherited_names:
  "(savedBatches rt hist = Inl TypeError \<longleftrightarrow>
      (\<exists>r \<in> set hist. normalizedServiceKey r \<in> set object_prototype_names))
   \<and> ((\<forall>r \<in> set hist. normalizedServiceKey r \<notin> set object_prototype_names) \<longrightarrow>
        (\<exists>w. savedBatches rt hist = Inr w))
   \<and> (savedBatches rt hist = Inr v \<longrightarrow>
        sorted_wrt (\<lambda>a b. b < a) (map sort_key_of v) \<and> mset (all_records v) = mset hist)
   \<and> (savedBatches rt hist = Inr v \<and> r \<in> set hist \<longrightarrow>
        (\<exists>m \<in> set v. sort_key_of m = sortKey rt r \<and> r \<in> set (all_records [m])))
   \<and> (1000 \<le> getFullYear rt (timestamp a) \<and> getFullYear rt (timestamp a) \<le> 9999
        \<and> getMonth rt (timestamp a) < 12
        \<and> 1000 \<le> getFullYear rt (timestamp b) \<and> getFullYear rt (timestamp b) \<le> 9999
        \<and> getMonth rt (timestamp b) < 12 \<longrightarrow>
        (sortKey rt a < sortKey rt b \<longleftrightarrow>
           getFullYear rt (timestamp a) < getFullYear rt (timestamp b)
           \<or> (getFullYear rt (timestamp a) = getFullYear rt (timestamp b)
               \<and> getMonth rt (timestamp a) < getMonth rt (timestamp b))))"
proof -
  have ok: "sorted_wrt (\<lambda>a b. b < a) (map sort_key_of v) \<and> mset (all_records v) = mset hist"
    if v: "savedBatches rt hist = Inr v"
  proof -
    from v obtain g where "groupedHistory rt hist = Inr g"
      by (auto simp: savedBatches_def split: sum.splits)
    then obtain w where "savedBatches rt hist = Inr w"
      and "sorted_wrt (\<lambda>a b. b < a) (map sort_key_of w)" and "mset (all_records w) = mset hist"
      by (rule savedBatches_correct)
    with v show ?thesis by simp
  qed
  have returns: "\<exists>w. savedBatches rt hist = Inr w"
    if "\<forall>r \<in> set hist. normalizedServiceKey r \<notin> set object_prototype_names"
  proof -
    from that obtain g where "groupedHistory rt hist = Inr g"
      using groupedHistory_returns_iff [of rt hist] by blast
    then show ?thesis
      by (auto elim: savedBatches_correct)
  qed
  have own: "\<exists>m \<in> set v. sort_key_of m = sortKey rt r \<and> r \<in> set (all_records [m])"
    if v: "savedBatches rt hist = Inr v" and r: "r \<in> set hist"
  proof -
    from v r obtain m sg where m: "m \<in> set v" and sg: "sg \<in> set (service_groups m)"
      and k: "sort_key_of m = sortKey rt r"
      and rs: "group_records sg = records_under rt (sortKey rt r) (normalizedServiceKey r) hist"
      by (rule group_in_view)
    from r rs have "r \<in> set (group_records sg)"
      by (simp add: records_under_def)
    with sg have "r \<in> set (all_records [m])"
      by (auto simp: all_records_def)
    with m k show ?thesis by blast
  qed
  have chrono: "sortKey rt a < sortKey rt b \<longleftrightarrow>
           getFullYear rt (timestamp a) < getFullYear rt (timestamp b)
           \<or> (getFullYear rt (timestamp a) = getFullYear rt (timestamp b)
               \<and> getMonth rt (timestamp a) < getMonth rt (timestamp b))"
    if "1000 \<le> getFullYear rt (timestamp a) \<and> getFullYear rt (timestamp a) \<le> 9999
        \<and> getMonth rt (timestamp a) < 12
        \<and> 1000 \<le> getFullYear rt (timestamp b) \<and> getFullYear rt (timestamp b) \<le> 9999
        \<and> getMonth rt (timestamp b) < 12"
    using that by (intro sortKey_chronological) simp_all
  from savedBatches_throws_iff [of rt hist] returns ok own chrono show ?thesis
    by blast
qed

lemma sample_calendar:
  "getFullYear utc_runtime (timestamp acme_jan1) = 2024" "getMonth utc_runtime (timestamp acme_jan1) = 0"
  "getFullYear utc_runtime (timestamp acme_feb) = 2024" "getMonth utc_runtime (timestamp acme_feb) = 1"
  by code_simp+

theorem aggregation_throws_on_inherited_names_witness:
  "constructor_feb \<in> set constructor_ledger
   \<and> laundry_service_name constructor_feb = ''Constructor''
   \<and> normalizedServiceKey constructor_feb \<in> set object_prototype_names
   \<and> savedBatches utc_runtime constructor_ledger = Inl TypeError
   \<and> savedBatches utc_runtime acme_ledger = Inr acme_view
   \<and> map sort_key_of acme_view = [''2024-02'', ''2024-01'']
   \<and> sorted_wrt (\<lambda>a b. b < a) (map sort_key_of acme_view)
   \<and> mset (all_records acme_view) = mset acme_ledger
   \<and> acme_jan1 \<in> set acme_ledger
   \<and> (\<exists>m. m \<in> set acme_view \<and> sort_key_of m = ''2024-01'' \<and> acme_jan1 \<in> set (all_records [m]))
   \<and> getFullYear utc_runtime (timestamp acme_jan1) = 2024
   \<and> getMonth utc_runtime (timestamp acme_jan1) = 0
   \<and> getFullYear utc_runtime (timestamp acme_feb) = 2024
   \<and> getMonth utc_runtime (timestamp acme_feb) = 1
   \<and> sortKey utc_runtime acme_jan1 < sortKey utc_runtime acme_feb"
proof -
  note claim = aggregation_throws_on_inherited_names
  have c: "constructor_feb \<in> set constructor_ledger"
    by (simp add: constructor_ledger_def)
  have n: "laundry_service_name constructor_feb = ''Constructor''"
    by (simp add: constructor_feb_def sample_order_def)
  have k: "normalizedServiceKey constructor_feb \<in> set object_prototype_names"
    by (simp add: sample_serviceKeys object_prototype_names_def)
  from claim [of utc_runtime constructor_ledger] c k
  have t: "savedBatches utc_runtime constructor_ledger = Inl TypeError"
    by blast
  from claim [of utc_runtime acme_ledger acme_view] acme_rendered
  have s: "sorted_wrt (\<lambda>a b. b < a) (map sort_key_of acme_view)"
    and r: "mset (all_records acme_view) = mset acme_ledger"
    by blast+
  have keys: "map sort_key_of acme_view = [''2024-02'', ''2024-01'']"
    by (simp add: acme_view_def)
  have j: "acme_jan1 \<in> set acme_ledger"
    by (simp add: acme_ledger_def)
  from claim [of utc_runtime acme_ledger acme_view acme_jan1] acme_rendered j
  have "\<exists>m \<in> set acme_view. sort_key_of m = sortKey utc_runtime acme_jan1 \<and> acme_jan1 \<in> set (all_records [m])"
    by blast
  then have b: "\<exists>m. m \<in> set acme_view \<and> sort_key_of m = ''2024-01'' \<and> acme_jan1 \<in> set (all_records [m])"
    by (auto simp: sample_sortKeys)
  from claim [of utc_runtime _ _ _ acme_jan1 acme_feb]
  have o: "sortKey utc_runtime acme_jan1 < sortKey utc_runtime acme_feb"
    by (simp add: sample_calendar)
  from c n k t acme_rendered keys s r j b sample_calendar o show ?thesis
    by blast
qed

end
